theory Spec2Isabelle
  imports Main "HOL-Library.AList" "HOL-Library.Char_ord" "HOL-Library.List_Lexorder"
begin

section \<open>Shared types (types.ts)\<close>

text \<open>
  The orchestrator's data model. String unions of the TypeScript source are datatypes,
  interfaces are records, \<open>T | null\<close> is \<open>T option\<close>. Every \<open>new Date().toISOString()\<close>
  of the source is a parameter \<open>now\<close> of the function that reads the clock.
\<close>

datatype Phase = Init | Po_conversation | Tech_lead_design | Dev_sessions | Completed

datatype agent_type = Agent_po | Agent_tech_lead | Agent_dev

datatype QuestionRecipient = User | Po | Tech_lead

datatype session_status = Pending | Running | Session_blocked | Session_completed

record BlockedState =
  isBlocked :: bool
  blockedAgent :: "agent_type option"
  questionFile :: "string option"
  waitingFor :: "QuestionRecipient option"

record DevSession =
  area :: string
  tickets :: "int list"
  status :: session_status

record State =
  phase :: Phase
  blocked :: BlockedState
  devSessions :: "DevSession list"
  currentAgent :: "string option"
  lastUpdated :: string

text \<open>The exceptions of the source, as values.\<close>

datatype error = StateError | BlockingError | AgentSpawnError | DevAgentError

section \<open>State store (state.ts)\<close>

fun VALID_TRANSITIONS :: "Phase \<Rightarrow> Phase list" where
  "VALID_TRANSITIONS Init = [Po_conversation]"
| "VALID_TRANSITIONS Po_conversation = [Tech_lead_design]"
| "VALID_TRANSITIONS Tech_lead_design = [Dev_sessions]"
| "VALID_TRANSITIONS Dev_sessions = [Completed]"
| "VALID_TRANSITIONS Completed = []"

definition createInitialState :: "string \<Rightarrow> State" where
  "createInitialState now =
     \<lparr>phase = Init,
      blocked = \<lparr>isBlocked = False, blockedAgent = None, questionFile = None, waitingFor = None\<rparr>,
      devSessions = [],
      currentAgent = None,
      lastUpdated = now\<rparr>"

definition isValidTransition :: "Phase \<Rightarrow> Phase \<Rightarrow> bool" where
  "isValidTransition from to = (to \<in> set (VALID_TRANSITIONS from))"

definition transitionPhase :: "string \<Rightarrow> State \<Rightarrow> Phase \<Rightarrow> error + State" where
  "transitionPhase now state newPhase =
     (if \<not> isValidTransition (phase state) newPhase then Inl StateError
      else Inr (state\<lparr>phase := newPhase, lastUpdated := now\<rparr>))"

definition setBlocked ::
  "string \<Rightarrow> State \<Rightarrow> agent_type option \<Rightarrow> string \<Rightarrow> QuestionRecipient option \<Rightarrow> State" where
  "setBlocked now state agent qfile waiting =
     state\<lparr>blocked := \<lparr>isBlocked = True, blockedAgent = agent,
                         questionFile = Some qfile, waitingFor = waiting\<rparr>,
           lastUpdated := now\<rparr>"

definition clearBlocked :: "string \<Rightarrow> State \<Rightarrow> State" where
  "clearBlocked now state =
     state\<lparr>blocked := \<lparr>isBlocked = False, blockedAgent = None,
                         questionFile = None, waitingFor = None\<rparr>,
           lastUpdated := now\<rparr>"

definition setCurrentAgent :: "string \<Rightarrow> State \<Rightarrow> string option \<Rightarrow> State" where
  "setCurrentAgent now state agent = state\<lparr>currentAgent := agent, lastUpdated := now\<rparr>"

text \<open>\<open>Array.prototype.findIndex\<close>: the first index whose element satisfies the test,
  \<open>None\<close> for the source's \<open>-1\<close>.\<close>

fun findIndex :: "('a \<Rightarrow> bool) \<Rightarrow> 'a list \<Rightarrow> nat option" where
  "findIndex P [] = None"
| "findIndex P (x # xs) =
     (if P x then Some 0 else (case findIndex P xs of None \<Rightarrow> None | Some i \<Rightarrow> Some (Suc i)))"

definition addDevSession :: "string \<Rightarrow> State \<Rightarrow> string \<Rightarrow> int list \<Rightarrow> error + State" where
  "addDevSession now state a ts =
     (case findIndex (\<lambda>s. area s = a) (devSessions state) of
        Some i \<Rightarrow> Inl StateError
      | None \<Rightarrow>
          Inr (state\<lparr>devSessions := devSessions state @ [\<lparr>area = a, tickets = ts, status = Pending\<rparr>],
                     lastUpdated := now\<rparr>))"

text \<open>The \<open>updates\<close> argument is a \<open>Partial<Pick<DevSession, "tickets" | "status">>\<close>:
  each of the two fields is present or absent.\<close>

record session_updates =
  upd_tickets :: "int list option"
  upd_status :: "session_status option"

definition apply_updates :: "DevSession \<Rightarrow> session_updates \<Rightarrow> DevSession" where
  "apply_updates s u =
     s\<lparr>tickets := (case upd_tickets u of None \<Rightarrow> tickets s | Some ts \<Rightarrow> ts),
       status := (case upd_status u of None \<Rightarrow> status s | Some st \<Rightarrow> st)\<rparr>"

definition updateDevSession :: "string \<Rightarrow> State \<Rightarrow> string \<Rightarrow> session_updates \<Rightarrow> error + State" where
  "updateDevSession now state a u =
     (case findIndex (\<lambda>s. area s = a) (devSessions state) of
        None \<Rightarrow> Inl StateError
      | Some i \<Rightarrow>
          Inr (state\<lparr>devSessions := (devSessions state)[i := apply_updates (devSessions state ! i) u],
                     lastUpdated := now\<rparr>))"

definition removeDevSession :: "string \<Rightarrow> State \<Rightarrow> string \<Rightarrow> error + State" where
  "removeDevSession now state a =
     (case findIndex (\<lambda>s. area s = a) (devSessions state) of
        None \<Rightarrow> Inl StateError
      | Some i \<Rightarrow>
          Inr (state\<lparr>devSessions := filter (\<lambda>s. area s \<noteq> a) (devSessions state),
                     lastUpdated := now\<rparr>))"

definition getDevSessionsByStatus :: "State \<Rightarrow> session_status \<Rightarrow> DevSession list" where
  "getDevSessionsByStatus state st = filter (\<lambda>s. status s = st) (devSessions state)"

text \<open>The order the specification fixes for the phases, and the successor it induces.
  This is the specification's side of the comparison with \<open>VALID_TRANSITIONS\<close>.\<close>

definition spec_phase_order :: "Phase list" where
  "spec_phase_order = [Init, Po_conversation, Tech_lead_design, Dev_sessions, Completed]"

definition spec_successor :: "Phase \<Rightarrow> Phase option" where
  "spec_successor p =
     (case dropWhile (\<lambda>q. q \<noteq> p) spec_phase_order of
        _ # n # _ \<Rightarrow> Some n
      | _ \<Rightarrow> None)"

section \<open>Exit codes and agent results (blocking.ts, agents/base.ts)\<close>

definition EXIT_SUCCESS :: int where "EXIT_SUCCESS = 0"
definition EXIT_ERROR :: int where "EXIT_ERROR = 1"
definition EXIT_BLOCKED :: int where "EXIT_BLOCKED = 2"

definition isBlockedExitCode :: "int \<Rightarrow> bool" where
  "isBlockedExitCode c = (c = EXIT_BLOCKED)"

definition isSuccessExitCode :: "int \<Rightarrow> bool" where
  "isSuccessExitCode c = (c = EXIT_SUCCESS)"

definition isErrorExitCode :: "int \<Rightarrow> bool" where
  "isErrorExitCode c = (c = EXIT_ERROR)"

record AgentResult =
  exitCode :: int
  stdout :: string
  stderr :: string
  killed :: bool

definition isSuccess :: "AgentResult \<Rightarrow> bool" where
  "isSuccess r = (exitCode r = EXIT_SUCCESS)"

definition isBlocked_result :: "AgentResult \<Rightarrow> bool" where
  "isBlocked_result r = (exitCode r = EXIT_BLOCKED)"

definition isError :: "AgentResult \<Rightarrow> bool" where
  "isError r = (exitCode r = EXIT_ERROR)"

text \<open>
  The \<open>close\<close> handler of \<open>spawnAgent\<close>: \<open>code\<close> and \<open>signal\<close> are what the event
  reports (each may be null), \<open>cp_killed\<close> is \<open>childProcess.killed\<close> at that moment, and
  \<open>out\<close>, \<open>err\<close> are the buffers collected so far. \<open>code ?? (signal ? 1 : 0)\<close> takes the
  code unless it is null; a string is truthy when it is not empty.
\<close>

definition truthy_string :: "string option \<Rightarrow> bool" where
  "truthy_string s = (case s of None \<Rightarrow> False | Some t \<Rightarrow> t \<noteq> [])"

definition onClose :: "int option \<Rightarrow> string option \<Rightarrow> bool \<Rightarrow> string \<Rightarrow> string \<Rightarrow> AgentResult" where
  "onClose code signal cp_killed out err =
     \<lparr>exitCode = (case code of Some c \<Rightarrow> c | None \<Rightarrow> (if truthy_string signal then 1 else 0)),
      stdout = out,
      stderr = err,
      killed = (cp_killed \<or> signal \<noteq> None)\<rparr>"

section \<open>Strings\<close>

text \<open>
  A JavaScript string is a sequence of UTF-16 code units. The model is \<open>string\<close>, read
  as the strings all of whose code units are below 256 (ASCII and Latin-1); the white
  space, line terminators and case mappings below are JavaScript's, restricted to that
  range.
\<close>

abbreviation NL :: char where "NL \<equiv> CHR 0x0A"

definition is_space :: "char \<Rightarrow> bool" where
  "is_space c = (c \<in> set [CHR 0x09, CHR 0x0A, CHR 0x0B, CHR 0x0C, CHR 0x0D, CHR 0x20, CHR 0xA0])"

definition is_line_terminator :: "char \<Rightarrow> bool" where
  "is_line_terminator c = (c = CHR 0x0A \<or> c = CHR 0x0D)"

definition trim :: "string \<Rightarrow> string" where
  "trim s = rev (dropWhile is_space (rev (dropWhile is_space s)))"

text \<open>A string without leading and without trailing white space.\<close>

definition is_trimmed :: "string \<Rightarrow> bool" where
  "is_trimmed s = (s = [] \<or> (\<not> is_space (hd s) \<and> \<not> is_space (last s)))"

definition toLowerCase_char :: "char \<Rightarrow> char" where
  "toLowerCase_char c =
     (let n = (of_char c :: nat)
      in if (65 \<le> n \<and> n \<le> 90) \<or> (192 \<le> n \<and> n \<le> 222 \<and> n \<noteq> 215)
         then char_of (n + 32) else c)"

definition toLowerCase :: "string \<Rightarrow> string" where
  "toLowerCase s = map toLowerCase_char s"

definition startsWith :: "string \<Rightarrow> string \<Rightarrow> bool" where
  "startsWith s p = (take (length p) s = p)"

definition endsWith :: "string \<Rightarrow> string \<Rightarrow> bool" where
  "endsWith s p = (length p \<le> length s \<and> drop (length s - length p) s = p)"

fun includes_str :: "string \<Rightarrow> string \<Rightarrow> bool" where
  "includes_str [] p = (p = [])"
| "includes_str (c # s) p = (startsWith (c # s) p \<or> includes_str s p)"

text \<open>\<open>s.split("\n")\<close> and \<open>xs.join(sep)\<close>.\<close>

fun split_on :: "char \<Rightarrow> string \<Rightarrow> string list" where
  "split_on sep [] = [[]]"
| "split_on sep (c # cs) =
     (if c = sep then [] # split_on sep cs
      else (case split_on sep cs of l # ls \<Rightarrow> (c # l) # ls | [] \<Rightarrow> [[c]]))"

fun join_with :: "string \<Rightarrow> string list \<Rightarrow> string" where
  "join_with sep [] = []"
| "join_with sep [x] = x"
| "join_with sep (x # y # ys) = x @ sep @ join_with sep (y # ys)"

definition padStart :: "nat \<Rightarrow> char \<Rightarrow> string \<Rightarrow> string" where
  "padStart n c s = replicate (n - length s) c @ s"

definition is_digit :: "char \<Rightarrow> bool" where
  "is_digit c = (48 \<le> (of_char c :: nat) \<and> (of_char c :: nat) \<le> 57)"

definition digit_char :: "nat \<Rightarrow> char" where
  "digit_char d = char_of (48 + d)"

subsection \<open>Numbers\<close>

text \<open>
  The numbers of the source are IEEE doubles. Those that occur here are non-negative
  integers or \<open>Infinity\<close>: a \<open>nat option\<close>, with \<open>None\<close> for \<open>Infinity\<close>. \<open>to_double n\<close> is
  the double nearest to the integer \<open>n\<close>: a significand of 53 bits, a tie going to the
  even significand, and \<open>Infinity\<close> from \<open>2^1024\<close> on.
\<close>

fun bit_length :: "nat \<Rightarrow> nat" where
  "bit_length n = (if n = 0 then 0 else Suc (bit_length (n div 2)))"

declare bit_length.simps [simp del]

definition to_double :: "nat \<Rightarrow> nat option" where
  "to_double n =
     (if bit_length n \<le> 53 then Some n
      else (let e = bit_length n - 53;
                q = n div 2 ^ e;
                r = n mod 2 ^ e;
                half = 2 ^ (e - 1);
                q' = (if half < r \<or> (r = half \<and> odd q) then q + 1 else q);
                v = q' * 2 ^ e
            in if v < 2 ^ 1024 then Some v else None))"

text \<open>The decimal numeral of a natural number. It is \<open>String(n)\<close> for an integer below
  \<open>2^53\<close>, such as the value of \<open>Date.now()\<close>.\<close>

fun string_of_nat :: "nat \<Rightarrow> string" where
  "string_of_nat n =
     (if n < 10 then [digit_char n] else string_of_nat (n div 10) @ [digit_char (n mod 10)])"

declare string_of_nat.simps [simp del]

text \<open>\<open>parseInt(ds, 10)\<close> on a string of digits: the double nearest to the number written.\<close>

definition decimal_value :: "string \<Rightarrow> nat" where
  "decimal_value ds = foldl (\<lambda>a c. 10 * a + ((of_char c :: nat) - 48)) 0 ds"

definition parseInt :: "string \<Rightarrow> nat option" where
  "parseInt ds = to_double (decimal_value ds)"

text \<open>\<open>Math.max(...xs)\<close> for a list that is not empty, and \<open>x + 1\<close>.\<close>

definition Math_max :: "nat option list \<Rightarrow> nat option" where
  "Math_max xs = (if None \<in> set xs then None else Some (Max (set (map the xs))))"

definition plus_one :: "nat option \<Rightarrow> nat option" where
  "plus_one x = (case x of None \<Rightarrow> None | Some n \<Rightarrow> to_double (n + 1))"

text \<open>
  \<open>String(x)\<close> (\<open>Number::toString\<close> in radix 10) for a double \<open>x\<close> that is a non-negative
  integer. The digits are those of the shortest decimal \<open>s\<close>, of \<open>k\<close> digits, such that
  \<open>s * 10^(n - k)\<close> rounds to \<open>x\<close>; among several \<open>s\<close> of that length the one nearest to
  \<open>x\<close> is taken, the even one when two are as near. \<open>digits_at x d k\<close> looks for such an
  \<open>s\<close> of \<open>k\<close> digits, where \<open>d\<close> is the number of digits of \<open>x\<close>: only the two
  \<open>k\<close>-digit decimals around \<open>x\<close> can be the nearest, and the upper one may be \<open>10^d\<close>,
  which is written with the digit 1.
\<close>

definition digits_at :: "nat \<Rightarrow> nat \<Rightarrow> nat \<Rightarrow> (nat \<times> nat) option" where
  "digits_at x d k =
     (let p = 10 ^ (d - k);
          lo = x div p;
          hi = lo + 1;
          lo_ok = (to_double (lo * p) = Some x);
          hi_ok = (to_double (hi * p) = Some x);
          upper = (if hi = 10 ^ k then (10 ^ (k - 1), d + 1) else (hi, d))
      in if lo_ok \<and> hi_ok
         then (if x - lo * p < hi * p - x \<or> (x - lo * p = hi * p - x \<and> even lo)
               then Some (lo, d) else Some upper)
         else if lo_ok then Some (lo, d)
         else if hi_ok then Some upper
         else None)"

definition shortest_digits :: "nat \<Rightarrow> nat \<times> nat" where
  "shortest_digits x =
     (let d = length (string_of_nat x)
      in case List.map_filter (digits_at x d) [1..<Suc d] of
           [] \<Rightarrow> (x, d)
         | c # cs \<Rightarrow> c)"

definition Number_toString :: "nat option \<Rightarrow> string" where
  "Number_toString x =
     (case x of
        None \<Rightarrow> ''Infinity''
      | Some v \<Rightarrow>
          (let (s, n) = shortest_digits v;
               ds = string_of_nat s;
               k = length ds
           in if n \<le> 21 then ds @ replicate (n - k) (CHR ''0'')
              else if k = 1 then ds @ ''e+'' @ string_of_nat (n - 1)
              else [hd ds] @ ''.'' @ tl ds @ ''e+'' @ string_of_nat (n - 1)))"

section \<open>Files\<close>

text \<open>
  The file system is the list of its files, each a path with its content and its
  modification time (\<open>mtimeMs\<close>; only the order of two times is ever used). The list
  order is the order in which \<open>readdirSync\<close> reports the entries. Directories are
  implicit, so \<open>ensureQuestionsDir\<close> changes nothing, and the questions directory holds
  plain files only.
\<close>

record file_entry =
  content :: string
  mtimeMs :: int

type_synonym filesystem = "(string \<times> file_entry) list"

definition existsSync :: "filesystem \<Rightarrow> string \<Rightarrow> bool" where
  "existsSync fs p = (map_of fs p \<noteq> None)"

definition readFileSync :: "filesystem \<Rightarrow> string \<Rightarrow> string option" where
  "readFileSync fs p = map_option content (map_of fs p)"

text \<open>\<open>statSync(p).mtimeMs\<close>; the paths it is asked about come from the listing of the
  same file system, so the missing case is never taken.\<close>

definition mtime_at :: "filesystem \<Rightarrow> string \<Rightarrow> int" where
  "mtime_at fs p = (case map_of fs p of Some f \<Rightarrow> mtimeMs f | None \<Rightarrow> 0)"

definition path_join :: "string \<Rightarrow> string \<Rightarrow> string" where
  "path_join dir f = dir @ ''/'' @ f"

definition readdirSync :: "filesystem \<Rightarrow> string \<Rightarrow> string list" where
  "readdirSync fs dir =
     map (\<lambda>p. drop (length dir + 1) p)
       (filter (\<lambda>p. startsWith p (dir @ ''/'') \<and> length dir + 1 < length p
                    \<and> CHR ''/'' \<notin> set (drop (length dir + 1) p))
          (map fst fs))"

text \<open>\<open>writeFileSync\<close> replaces the content of an existing file where it stands and
  appends a new one; \<open>renameSync\<close> moves a file over the target name.\<close>

definition writeFileSync :: "filesystem \<Rightarrow> string \<Rightarrow> string \<Rightarrow> int \<Rightarrow> filesystem" where
  "writeFileSync fs p c t = AList.update p \<lparr>content = c, mtimeMs = t\<rparr> fs"

definition renameSync :: "filesystem \<Rightarrow> string \<Rightarrow> string \<Rightarrow> filesystem" where
  "renameSync fs old new =
     (case map_of fs old of
        None \<Rightarrow> fs
      | Some f \<Rightarrow> if old = new then fs else AList.update new f (AList.delete old fs))"

section \<open>Blocking questions (blocking.ts)\<close>

definition ORCHESTRATOR_DIR :: string where
  "ORCHESTRATOR_DIR = ''.orchestrator''"

definition QUESTIONS_DIR :: string where
  "QUESTIONS_DIR = path_join ORCHESTRATOR_DIR ''questions''"

record ParsedQuestion =
  filePath :: string
  fromAgent :: string
  forRecipient :: QuestionRecipient
  q_context :: string
  question :: string
  options :: "string list"
  rawContent :: string

text \<open>\<open>listQuestionFiles\<close>: the question files of the directory, in the order of the
  listing, then sorted. The comparator \<open>statB.mtimeMs - statA.mtimeMs\<close> puts the later
  time first, and \<open>Array.prototype.sort\<close> is stable.\<close>

definition question_file_paths :: "filesystem \<Rightarrow> string list" where
  "question_file_paths fs =
     map (path_join QUESTIONS_DIR)
       (filter (\<lambda>f. endsWith f ''.md'' \<and> startsWith f ''q-'')
          (readdirSync fs QUESTIONS_DIR))"

definition listQuestionFiles :: "filesystem \<Rightarrow> string list" where
  "listQuestionFiles fs = sort_key (\<lambda>p. - mtime_at fs p) (question_file_paths fs)"

text \<open>The paths that \<open>listQuestionFiles\<close> lists, said of the path itself.\<close>

definition is_question_path :: "string \<Rightarrow> bool" where
  "is_question_path p =
     (startsWith p (QUESTIONS_DIR @ ''/'') \<and> length QUESTIONS_DIR + 1 < length p
      \<and> CHR ''/'' \<notin> set (drop (length QUESTIONS_DIR + 1) p)
      \<and> endsWith (drop (length QUESTIONS_DIR + 1) p) ''.md''
      \<and> startsWith (drop (length QUESTIONS_DIR + 1) p) ''q-'')"

definition getResponseFilePath :: "string \<Rightarrow> string" where
  "getResponseFilePath qfile =
     (if endsWith qfile ''.md''
      then take (length qfile - 3) qfile @ ''.response''
      else qfile)"

definition findLatestUnansweredQuestion :: "filesystem \<Rightarrow> string option" where
  "findLatestUnansweredQuestion fs =
     List.find (\<lambda>q. \<not> existsSync fs (getResponseFilePath q)) (listQuestionFiles fs)"

text \<open>Two question directories used as examples below.\<close>

definition example_questions :: filesystem where
  "example_questions =
     [(''.orchestrator/questions/q-001.md'', \<lparr>content = ''first'', mtimeMs = 10\<rparr>),
      (''.orchestrator/questions/q-002.md'', \<lparr>content = ''second'', mtimeMs = 20\<rparr>),
      (''.orchestrator/questions/notes.txt'', \<lparr>content = ''x'', mtimeMs = 30\<rparr>)]"

definition example_tie :: filesystem where
  "example_tie =
     [(''.orchestrator/questions/q-001.md'', \<lparr>content = ''first'', mtimeMs = 10\<rparr>),
      (''.orchestrator/questions/q-002.md'', \<lparr>content = ''second'', mtimeMs = 10\<rparr>)]"

text \<open>The pattern \<open>/^q-\d+\.md$/\<close> and its group.\<close>

definition question_number :: "string \<Rightarrow> nat option option" where
  "question_number f =
     (let ds = take (length f - 5) (drop 2 f)
      in if startsWith f ''q-'' \<and> endsWith f ''.md'' \<and> 5 < length f \<and> list_all is_digit ds
         then Some (parseInt ds) else None)"

definition generateQuestionFileName :: "filesystem \<Rightarrow> string" where
  "generateQuestionFileName fs =
     (let questionNumbers = List.map_filter question_number (readdirSync fs QUESTIONS_DIR);
          nextNumber = (if questionNumbers \<noteq> [] then plus_one (Math_max questionNumbers) else Some 1);
          paddedNumber = padStart 3 (CHR ''0'') (Number_toString nextNumber)
      in path_join QUESTIONS_DIR (''q-'' @ paddedNumber @ ''.md''))"

subsection \<open>The three line patterns of \<open>parseQuestionFile\<close>\<close>

text \<open>
  \<open>capture_rest r\<close> is the group of \<open>\s*(.+)$\<close> matched against the rest \<open>r\<close> of a
  line: the white space is taken greedily, the group is what follows and must reach the
  end of the input without a line terminator (\<open>.\<close> does not match one). When the rest
  is white space only, backtracking leaves the last character to the group.
\<close>

definition capture_rest :: "string \<Rightarrow> string option" where
  "capture_rest r =
     (let rem = dropWhile is_space r
      in if rem \<noteq> [] then (if list_all (\<lambda>c. \<not> is_line_terminator c) rem then Some rem else None)
         else if r \<noteq> [] \<and> \<not> is_line_terminator (last r) then Some [last r]
         else None)"

text \<open>A literal matched without regard to case (the \<open>i\<close> flag); \<open>lit\<close> is in lower case.\<close>

definition match_ci :: "string \<Rightarrow> string \<Rightarrow> string option" where
  "match_ci lit s =
     (if toLowerCase (take (length lit) s) = lit then Some (drop (length lit) s) else None)"

text \<open>\<open>/^#\s*Question from:\s*(.+)$/i\<close>\<close>

definition fromMatch :: "string \<Rightarrow> string option" where
  "fromMatch line =
     (case line of
        [] \<Rightarrow> None
      | c # r \<Rightarrow>
          if c \<noteq> CHR ''#'' then None
          else (case match_ci ''question from:'' (dropWhile is_space r) of
                  None \<Rightarrow> None
                | Some r' \<Rightarrow> capture_rest r'))"

text \<open>\<open>/^##\s*For:\s*(.+)$/i\<close>\<close>

definition forMatch :: "string \<Rightarrow> string option" where
  "forMatch line =
     (if \<not> startsWith line ''##'' then None
      else (case match_ci ''for:'' (dropWhile is_space (drop 2 line)) of
              None \<Rightarrow> None
            | Some r' \<Rightarrow> capture_rest r'))"

text \<open>\<open>/^##\s*(.+)$/i\<close>\<close>

definition sectionMatch :: "string \<Rightarrow> string option" where
  "sectionMatch line =
     (if \<not> startsWith line ''##'' then None else capture_rest (drop 2 line))"

subsection \<open>\<open>parseQuestionFile\<close>\<close>

text \<open>The loop's variables. \<open>currentSection\<close> is one of the strings \<open>""\<close>,
  \<open>"context"\<close>, \<open>"question"\<close>, \<open>"options"\<close>.\<close>

datatype section_name = No_section | Context_section | Question_section | Options_section

record parse_state =
  p_fromAgent :: string
  p_forRecipient :: QuestionRecipient
  p_context :: string
  p_question :: string
  p_options :: "string list"
  currentSection :: section_name
  sectionContent :: "string list"

definition parse_init :: parse_state where
  "parse_init =
     \<lparr>p_fromAgent = [], p_forRecipient = User, p_context = [], p_question = [],
      p_options = [], currentSection = No_section, sectionContent = []\<rparr>"

definition saveSection :: "parse_state \<Rightarrow> parse_state" where
  "saveSection st =
     (let text = trim (join_with [NL] (sectionContent st));
          st' = (case currentSection st of
                   Context_section \<Rightarrow> st\<lparr>p_context := text\<rparr>
                 | Question_section \<Rightarrow> st\<lparr>p_question := text\<rparr>
                 | Options_section \<Rightarrow>
                     st\<lparr>p_options := p_options st @ filter (\<lambda>l. trim l \<noteq> []) (split_on NL text)\<rparr>
                 | No_section \<Rightarrow> st)
      in st'\<lparr>sectionContent := []\<rparr>)"

definition recipient_of :: "string \<Rightarrow> QuestionRecipient" where
  "recipient_of r =
     (if r = ''user'' then User else if r = ''po'' then Po
      else if r = ''tech_lead'' then Tech_lead else User)"

definition section_of :: "string \<Rightarrow> section_name" where
  "section_of sectionName =
     (if includes_str sectionName ''context'' then Context_section
      else if includes_str sectionName ''question'' then Question_section
      else if includes_str sectionName ''option'' then Options_section
      else No_section)"

definition parse_line :: "parse_state \<Rightarrow> string \<Rightarrow> parse_state" where
  "parse_line st line =
     (case fromMatch line of
        Some g \<Rightarrow> st\<lparr>p_fromAgent := trim g\<rparr>
      | None \<Rightarrow>
     (case forMatch line of
        Some g \<Rightarrow> st\<lparr>p_forRecipient := recipient_of (toLowerCase (trim g))\<rparr>
      | None \<Rightarrow>
     (case sectionMatch line of
        Some g \<Rightarrow> (saveSection st)\<lparr>currentSection := section_of (toLowerCase (trim g))\<rparr>
      | None \<Rightarrow>
          if currentSection st \<noteq> No_section
          then st\<lparr>sectionContent := sectionContent st @ [line]\<rparr>
          else st)))"

text \<open>
  Kinds of lines, as \<open>parse_line\<close> tells them apart: a content line is matched by none
  of the three patterns; a section header is matched by the third pattern only, and
  \<open>header_section\<close> is the section it opens.
\<close>

definition is_content_line :: "string \<Rightarrow> bool" where
  "is_content_line l = (fromMatch l = None \<and> forMatch l = None \<and> sectionMatch l = None)"

definition header_section :: "string \<Rightarrow> section_name option" where
  "header_section l =
     (if fromMatch l \<noteq> None \<or> forMatch l \<noteq> None then None
      else map_option (\<lambda>g. section_of (toLowerCase (trim g))) (sectionMatch l))"

definition is_blank :: "string \<Rightarrow> bool" where
  "is_blank l = (trim l = [])"

definition parse_content :: "string \<Rightarrow> string \<Rightarrow> ParsedQuestion" where
  "parse_content path c =
     (let st = saveSection (foldl parse_line parse_init (split_on NL c))
      in \<lparr>filePath = path, fromAgent = p_fromAgent st, forRecipient = p_forRecipient st,
          q_context = p_context st, question = p_question st, options = p_options st,
          rawContent = c\<rparr>)"

definition parseQuestionFile :: "filesystem \<Rightarrow> string \<Rightarrow> error + ParsedQuestion" where
  "parseQuestionFile fs path =
     (case readFileSync fs path of
        None \<Rightarrow> Inl BlockingError
      | Some c \<Rightarrow> Inr (parse_content path c))"

text \<open>Question files used as examples below.\<close>

definition example_malformed :: string where
  "example_malformed =
     join_with [NL]
       [''# Question from: dev'', ''## For: bogus_value'', ''## Notes'', ''secret'',
        ''## Context'', ''hello'', []]"

definition example_malformed_short :: string where
  "example_malformed_short =
     join_with [NL]
       [''# Question from: dev'', ''## For: bogus_value'', ''## Notes'', ''## Context'', ''hello'', []]"

definition example_no_for :: string where
  "example_no_for = join_with [NL] [''# Question from: dev'', ''## Question'', ''what?'']"

definition example_no_body :: string where
  "example_no_body = join_with [NL] [''# Question from: dev'', ''## Question'', '' '', []]"

definition example_notes :: string where
  "example_notes =
     join_with [NL]
       [''# Question from: dev'', ''## Notes'', ''secret'', ''# Question from: mallory'', ''more'',
        ''## Context'', ''hello'']"

definition example_notes_cut :: string where
  "example_notes_cut =
     join_with [NL] [''# Question from: dev'', ''## Notes'', ''## Context'', ''hello'']"

definition example_notes_from :: string where
  "example_notes_from =
     join_with [NL]
       [''# Question from: dev'', ''## Notes'', ''# Question from: mallory'', ''## Context'', ''hello'']"

definition example_empty_question :: string where
  "example_empty_question =
     join_with [NL]
       [''# Question from: dev'', ''## Context'', ''hello'', ''## Question'', [], ''## Options'', ''yes'']"

subsection \<open>Responses, routing, writing a question\<close>

text \<open>\<open>now_ms\<close> is \<open>Date.now()\<close> and \<open>iso_now\<close> is \<open>new Date().toISOString()\<close>.\<close>

definition writeResponse ::
  "nat \<Rightarrow> string \<Rightarrow> filesystem \<Rightarrow> string \<Rightarrow> string \<Rightarrow> string \<times> filesystem" where
  "writeResponse now_ms iso_now fs qfile response =
     (let responseFile = getResponseFilePath qfile;
          tempFile = responseFile @ ''.tmp.'' @ string_of_nat now_ms;
          c = ''# Response'' @ [NL, NL] @ response @ [NL, NL] @ ''Answered: '' @ iso_now @ [NL];
          fs1 = writeFileSync fs tempFile c (int now_ms);
          fs2 = renameSync fs1 tempFile responseFile
      in (responseFile, fs2))"

definition hasResponse :: "filesystem \<Rightarrow> string \<Rightarrow> bool" where
  "hasResponse fs qfile = existsSync fs (getResponseFilePath qfile)"

datatype routing = Prompt_user | Spawn_po | Spawn_tech_lead

definition routeQuestion :: "ParsedQuestion \<Rightarrow> routing" where
  "routeQuestion q =
     (case forRecipient q of User \<Rightarrow> Prompt_user | Po \<Rightarrow> Spawn_po | Tech_lead \<Rightarrow> Spawn_tech_lead)"

definition recipient_string :: "QuestionRecipient \<Rightarrow> string" where
  "recipient_string r = (case r of User \<Rightarrow> ''user'' | Po \<Rightarrow> ''po'' | Tech_lead \<Rightarrow> ''tech_lead'')"

definition question_lines ::
  "string \<Rightarrow> QuestionRecipient \<Rightarrow> string \<Rightarrow> string \<Rightarrow> string list \<Rightarrow> string list" where
  "question_lines fromA forR ctx qu opts =
     [''# Question from: '' @ fromA, [], ''## For: '' @ recipient_string forR, [],
      ''## Context'', [], ctx, [], ''## Question'', [], qu]
     @ (if opts \<noteq> [] then [[], ''## Options'', []] @ opts else [])"

definition writeQuestionFile ::
  "nat \<Rightarrow> filesystem \<Rightarrow> string \<Rightarrow> QuestionRecipient \<Rightarrow> string \<Rightarrow> string \<Rightarrow> string list
     \<Rightarrow> string \<times> filesystem" where
  "writeQuestionFile now_ms fs fromA forR ctx qu opts =
     (let path = generateQuestionFileName fs;
          c = join_with [NL] (question_lines fromA forR ctx qu opts) @ [NL];
          tempFile = path @ ''.tmp.'' @ string_of_nat now_ms;
          fs1 = writeFileSync fs tempFile c (int now_ms);
          fs2 = renameSync fs1 tempFile path
      in (path, fs2))"

definition getBlockedAgentType :: "string \<Rightarrow> agent_type option" where
  "getBlockedAgentType agentName =
     (let name = toLowerCase agentName
      in if includes_str name ''po'' then Some Agent_po
         else if includes_str name ''tech'' \<or> includes_str name ''lead'' then Some Agent_tech_lead
         else if includes_str name ''dev'' then Some Agent_dev
         else None)"

section \<open>Spawning an agent (agents/base.ts)\<close>

datatype stdio_mode = Inherit | Pipe

record AgentConfig =
  cfg_name :: string
  cfg_promptFile :: string
  cfg_context :: string
  cfg_stdio :: stdio_mode

text \<open>\<open>validateConfig\<close>; \<open>!s || s.trim() === ""\<close> holds of the empty string and of a
  string of white space. The check of \<open>stdio\<close> cannot fail on a typed value.\<close>

definition validateConfig :: "filesystem \<Rightarrow> AgentConfig \<Rightarrow> error option" where
  "validateConfig fs config =
     (if cfg_name config = [] \<or> trim (cfg_name config) = [] then Some AgentSpawnError
      else if cfg_promptFile config = [] \<or> trim (cfg_promptFile config) = [] then Some AgentSpawnError
      else if \<not> existsSync fs (cfg_promptFile config) then Some AgentSpawnError
      else None)"

text \<open>
  What the operating system does with a spawned process is the environment's choice:
  the process cannot be created (the \<open>error\<close> event), or it ends and the \<open>close\<close> event
  reports its code and signal, with \<open>childProcess.killed\<close> and the collected output as
  they are then. The result promise of \<open>spawnAgent\<close> settles accordingly.
\<close>

datatype proc_event = Spawn_error | Close "int option" "string option" bool string string

definition agent_result :: "proc_event \<Rightarrow> error + AgentResult" where
  "agent_result ev =
     (case ev of
        Spawn_error \<Rightarrow> Inl AgentSpawnError
      | Close code signal cp_killed out err \<Rightarrow> Inr (onClose code signal cp_killed out err))"

subsection \<open>The handle's \<open>kill\<close>\<close>

text \<open>
  The child process as \<open>kill\<close> sees it: its \<open>killed\<close> flag, whether it has exited, and
  the signals the underlying \<open>childProcess.kill\<close> was called with. \<open>child_kill\<close> is
  Node's \<open>ChildProcess.kill\<close>: the call delivers the signal unless the process has
  exited, and sets \<open>killed\<close> when it delivered it.
\<close>

datatype signal = SIGTERM | SIGKILL

record ChildProcess =
  cp_killed :: bool
  cp_exited :: bool
  cp_signals :: "signal list"

definition child_kill :: "signal \<Rightarrow> ChildProcess \<Rightarrow> ChildProcess" where
  "child_kill sig p =
     p\<lparr>cp_signals := cp_signals p @ [sig], cp_killed := (cp_killed p \<or> \<not> cp_exited p)\<rparr>"

text \<open>\<open>kill\<close> returns the process after the call and the delays, in milliseconds, of the
  timers it has armed; \<open>kill_timeout\<close> is the timer's callback, applied to the process as
  it is when the timer fires.\<close>

definition kill :: "ChildProcess \<Rightarrow> ChildProcess \<times> nat list" where
  "kill p = (if \<not> cp_killed p then (child_kill SIGTERM p, [5000]) else (p, []))"

definition kill_timeout :: "ChildProcess \<Rightarrow> ChildProcess" where
  "kill_timeout p = (if \<not> cp_killed p then child_kill SIGKILL p else p)"

section \<open>Dev agents (agents/dev.ts)\<close>

definition DEV_PROMPT_FILE :: string where "DEV_PROMPT_FILE = ''prompts/dev.md''"
definition PRD_FILE :: string where "PRD_FILE = path_join ORCHESTRATOR_DIR ''prd.md''"
definition ARCHITECTURE_FILE :: string where
  "ARCHITECTURE_FILE = path_join ORCHESTRATOR_DIR ''architecture.md''"

record DevAgentConfig =
  c_area :: string
  c_tickets :: "int list"
  c_prdFile :: "string option"
  c_architectureFile :: "string option"
  c_promptFile :: "string option"
  c_additionalContext :: "string option"

datatype dev_status = Success | Blocked | Error

record DevAgentResult =
  r_area :: string
  agentResult :: AgentResult
  r_status :: dev_status
  r_questionFile :: "string option"
  needsTechLead :: bool

definition readPRDFile :: "filesystem \<Rightarrow> string \<Rightarrow> error + string" where
  "readPRDFile fs prdFile =
     (case readFileSync fs prdFile of None \<Rightarrow> Inl DevAgentError | Some c \<Rightarrow> Inr c)"

definition readArchitectureFile :: "filesystem \<Rightarrow> string \<Rightarrow> error + string" where
  "readArchitectureFile fs architectureFile =
     (case readFileSync fs architectureFile of None \<Rightarrow> Inl DevAgentError | Some c \<Rightarrow> Inr c)"

definition checkBlockingForTechLead :: "filesystem \<Rightarrow> error + (string option \<times> bool)" where
  "checkBlockingForTechLead fs =
     (case findLatestUnansweredQuestion fs of
        None \<Rightarrow> Inr (None, False)
      | Some qfile \<Rightarrow>
          (case parseQuestionFile fs qfile of
             Inl e \<Rightarrow> Inl e
           | Inr parsedQuestion \<Rightarrow> Inr (Some qfile, routeQuestion parsedQuestion = Spawn_tech_lead)))"

definition toDevAgentResult :: "filesystem \<Rightarrow> string \<Rightarrow> AgentResult \<Rightarrow> error + DevAgentResult" where
  "toDevAgentResult fs a res =
     (if isSuccess res then
        Inr \<lparr>r_area = a, agentResult = res, r_status = Success,
             r_questionFile = None, needsTechLead = False\<rparr>
      else if isBlocked_result res then
        (case checkBlockingForTechLead fs of
           Inl e \<Rightarrow> Inl e
         | Inr (qfile, needs) \<Rightarrow>
             Inr \<lparr>r_area = a, agentResult = res, r_status = Blocked,
                  r_questionFile = qfile, needsTechLead = needs\<rparr>)
      else
        Inr \<lparr>r_area = a, agentResult = res, r_status = Error,
             r_questionFile = None, needsTechLead = False\<rparr>)"

text \<open>
  The environment of a run of several sessions. For the session at position \<open>k\<close> of the
  input: \<open>w_fs_spawn k\<close> is the file system its configuration is validated against,
  \<open>w_event k\<close> what becomes of its process (\<open>None\<close>: it never ends), \<open>w_fs_done k\<close>
  the file system when its result is converted. \<open>w_order\<close> lists the positions in the
  order in which their processes settle when all run at once. The context string built
  for the process does not influence any of this and is left out.
\<close>

record world =
  w_fs_spawn :: "nat \<Rightarrow> filesystem"
  w_event :: "nat \<Rightarrow> proc_event option"
  w_fs_done :: "nat \<Rightarrow> filesystem"
  w_order :: "nat list"

definition default_to :: "'a \<Rightarrow> 'a option \<Rightarrow> 'a" where
  "default_to d x = (case x of None \<Rightarrow> d | Some v \<Rightarrow> v)"

text \<open>\<open>runDevAgent\<close>: \<open>None\<close> when the awaited process never ends.\<close>

definition runDevAgent :: "world \<Rightarrow> nat \<Rightarrow> DevAgentConfig \<Rightarrow> (error + DevAgentResult) option" where
  "runDevAgent w k config =
     (let fs = w_fs_spawn w k;
          prdFile = default_to PRD_FILE (c_prdFile config);
          architectureFile = default_to ARCHITECTURE_FILE (c_architectureFile config);
          promptFile = default_to DEV_PROMPT_FILE (c_promptFile config)
      in if c_area config = [] \<or> trim (c_area config) = [] then Some (Inl DevAgentError)
         else if c_tickets config = [] then Some (Inl DevAgentError)
         else if \<not> existsSync fs promptFile then Some (Inl DevAgentError)
         else (case readPRDFile fs prdFile of Inl e \<Rightarrow> Some (Inl e) | Inr prdContent \<Rightarrow>
              (case readArchitectureFile fs architectureFile of Inl e \<Rightarrow> Some (Inl e) | Inr architectureContent \<Rightarrow>
              (case validateConfig fs \<lparr>cfg_name = ''dev-'' @ c_area config, cfg_promptFile = promptFile,
                                       cfg_context = [], cfg_stdio = Pipe\<rparr> of
                 Some e \<Rightarrow> Some (Inl e)
               | None \<Rightarrow>
                   (case w_event w k of
                      None \<Rightarrow> None
                    | Some ev \<Rightarrow>
                        (case agent_result ev of
                           Inl e \<Rightarrow> Some (Inl e)
                         | Inr res \<Rightarrow> Some (toDevAgentResult (w_fs_done w k) (c_area config) res)))))))"

text \<open>\<open>spawnDevAgent\<close> returns a handle; the process of the handle is named by its
  position \<open>k\<close>, and \<open>handle_result\<close> is the handle's result promise once settled.\<close>

record DevSessionHandle =
  h_area :: string
  h_tickets :: "int list"
  h_process :: nat

definition spawnDevAgent :: "world \<Rightarrow> nat \<Rightarrow> DevAgentConfig \<Rightarrow> error + DevSessionHandle" where
  "spawnDevAgent w k config =
     (let fs = w_fs_spawn w k;
          prdFile = default_to PRD_FILE (c_prdFile config);
          architectureFile = default_to ARCHITECTURE_FILE (c_architectureFile config);
          promptFile = default_to DEV_PROMPT_FILE (c_promptFile config)
      in if c_area config = [] \<or> trim (c_area config) = [] then Inl DevAgentError
         else if c_tickets config = [] then Inl DevAgentError
         else if \<not> existsSync fs promptFile then Inl DevAgentError
         else (case readPRDFile fs prdFile of Inl e \<Rightarrow> Inl e | Inr prdContent \<Rightarrow>
              (case readArchitectureFile fs architectureFile of Inl e \<Rightarrow> Inl e | Inr architectureContent \<Rightarrow>
              (case validateConfig fs \<lparr>cfg_name = ''dev-'' @ c_area config, cfg_promptFile = promptFile,
                                       cfg_context = [], cfg_stdio = Pipe\<rparr> of
                 Some e \<Rightarrow> Inl e
               | None \<Rightarrow> Inr \<lparr>h_area = c_area config, h_tickets = c_tickets config, h_process = k\<rparr>))))"

definition handle_result :: "world \<Rightarrow> DevSessionHandle \<Rightarrow> (error + DevAgentResult) option" where
  "handle_result w h =
     (case w_event w (h_process h) of
        None \<Rightarrow> None
      | Some ev \<Rightarrow>
          (case agent_result ev of
             Inl e \<Rightarrow> Some (Inl e)
           | Inr res \<Rightarrow> Some (toDevAgentResult (w_fs_done w (h_process h)) (h_area h) res)))"

record DevSessionInput =
  in_area :: string
  in_tickets :: "int list"

record RunDevSessionsOptions =
  o_parallel :: "bool option"
  o_prdFile :: "string option"
  o_architectureFile :: "string option"
  o_promptFile :: "string option"

definition session_config :: "RunDevSessionsOptions \<Rightarrow> DevSessionInput \<Rightarrow> DevAgentConfig" where
  "session_config opts session =
     \<lparr>c_area = in_area session, c_tickets = in_tickets session, c_prdFile = o_prdFile opts,
      c_architectureFile = o_architectureFile opts, c_promptFile = o_promptFile opts,
      c_additionalContext = None\<rparr>"

text \<open>\<open>sessions.map(spawnDevAgent)\<close>: the handles in input order; the first exception
  ends the map.\<close>

fun spawn_all ::
  "world \<Rightarrow> RunDevSessionsOptions \<Rightarrow> nat \<Rightarrow> DevSessionInput list \<Rightarrow> error + DevSessionHandle list" where
  "spawn_all w opts k [] = Inr []"
| "spawn_all w opts k (s # ss) =
     (case spawnDevAgent w k (session_config opts s) of
        Inl e \<Rightarrow> Inl e
      | Inr h \<Rightarrow> (case spawn_all w opts (Suc k) ss of Inl e \<Rightarrow> Inl e | Inr hs \<Rightarrow> Inr (h # hs)))"

text \<open>
  \<open>Promise.all\<close> over the handles' result promises. The promises settle in the order
  \<open>order\<close>; each fulfilled value is stored in the slot of its own position, the first
  rejection rejects the whole, and the whole is fulfilled with the slots in position
  order once every slot is filled. \<open>None\<close>: some promise never settles.
\<close>

fun promise_all ::
  "(nat \<Rightarrow> (error + 'a) option) \<Rightarrow> nat list \<Rightarrow> 'a option list \<Rightarrow> (error + 'a list) option" where
  "promise_all settle [] slots = map_option Inr (those slots)"
| "promise_all settle (i # order) slots =
     (case settle i of
        None \<Rightarrow> promise_all settle order slots
      | Some (Inl e) \<Rightarrow> Some (Inl e)
      | Some (Inr v) \<Rightarrow> promise_all settle order (slots[i := Some v]))"

text \<open>The sequential loop: \<open>results\<close> is the array the loop pushes to.\<close>

fun run_sequential ::
  "world \<Rightarrow> RunDevSessionsOptions \<Rightarrow> nat \<Rightarrow> DevSessionInput list \<Rightarrow> DevAgentResult list
     \<Rightarrow> (error + DevAgentResult list) option" where
  "run_sequential w opts k [] results = Some (Inr results)"
| "run_sequential w opts k (s # ss) results =
     (case runDevAgent w k (session_config opts s) of
        None \<Rightarrow> None
      | Some (Inl e) \<Rightarrow> Some (Inl e)
      | Some (Inr r) \<Rightarrow> run_sequential w opts (Suc k) ss (results @ [r]))"

definition runDevSessions ::
  "world \<Rightarrow> DevSessionInput list \<Rightarrow> RunDevSessionsOptions \<Rightarrow> (error + DevAgentResult list) option" where
  "runDevSessions w sessions opts =
     (let parallel = default_to True (o_parallel opts)
      in if sessions = [] then Some (Inr [])
         else if parallel then
           (case spawn_all w opts 0 sessions of
              Inl e \<Rightarrow> Some (Inl e)
            | Inr handles \<Rightarrow>
                promise_all (\<lambda>i. if i < length handles then handle_result w (handles ! i) else None)
                  (w_order w) (replicate (length handles) None))
         else run_sequential w opts 0 sessions [])"

text \<open>A project with its prompt, PRD and architecture files and one open question,
  and a run of three sessions in it: the first succeeds, the second is blocked, the
  third fails, and the third process is the first to finish.\<close>

definition example_project :: filesystem where
  "example_project =
     [(''prompts/dev.md'', \<lparr>content = ''You are a Dev agent'', mtimeMs = 1\<rparr>),
      (''.orchestrator/prd.md'', \<lparr>content = ''# PRD'', mtimeMs = 2\<rparr>),
      (''.orchestrator/architecture.md'', \<lparr>content = ''# Architecture'', mtimeMs = 3\<rparr>),
      (''.orchestrator/questions/q-001.md'',
         \<lparr>content = join_with [NL]
              (question_lines ''dev-backend'' Tech_lead ''schema'' ''which database?'' []) @ [NL],
          mtimeMs = 4\<rparr>)]"

definition example_world :: world where
  "example_world =
     \<lparr>w_fs_spawn = (\<lambda>k. example_project),
      w_event = (\<lambda>k. if k = 0 then Some (Close (Some 0) None False [] [])
                     else if k = 1 then Some (Close (Some 2) None False [] [])
                     else Some (Close (Some 1) None False [] [])),
      w_fs_done = (\<lambda>k. example_project),
      w_order = [2, 0, 1]\<rparr>"

definition example_sessions :: "DevSessionInput list" where
  "example_sessions =
     [\<lparr>in_area = ''frontend'', in_tickets = [1, 3]\<rparr>,
      \<lparr>in_area = ''backend'', in_tickets = [2]\<rparr>,
      \<lparr>in_area = ''api'', in_tickets = [5]\<rparr>]"

definition default_options :: RunDevSessionsOptions where
  "default_options =
     \<lparr>o_parallel = None, o_prdFile = None, o_architectureFile = None, o_promptFile = None\<rparr>"

section \<open>Seeding the sessions (agents/tech-lead.ts)\<close>

datatype issue_state = Open | Closed

record Issue =
  i_number :: int
  i_title :: string
  i_state :: issue_state

record AreaWithIssues =
  a_area :: string
  a_issues :: "Issue list"
  a_ticketNumbers :: "int list"

text \<open>\<open>parseAreasFromIssues\<close>; \<open>areas\<close> is what \<open>getAreas()\<close> answers and \<open>issuesByArea\<close>
  what \<open>getIssuesByArea\<close> answers for each area.\<close>

fun parseAreasFromIssues :: "string list \<Rightarrow> (string \<Rightarrow> Issue list) \<Rightarrow> AreaWithIssues list" where
  "parseAreasFromIssues [] issuesByArea = []"
| "parseAreasFromIssues (a # areas) issuesByArea =
     (let openIssues = filter (\<lambda>issue. i_state issue = Open) (issuesByArea a)
      in (if openIssues \<noteq> []
          then [\<lparr>a_area = a, a_issues = openIssues, a_ticketNumbers = map i_number openIssues\<rparr>]
          else [])
         @ parseAreasFromIssues areas issuesByArea)"

definition areasToDevSessionInput :: "AreaWithIssues list \<Rightarrow> DevSessionInput list" where
  "areasToDevSessionInput areasWithIssues =
     map (\<lambda>x. \<lparr>in_area = a_area x, in_tickets = a_ticketNumbers x\<rparr>) areasWithIssues"

section \<open>The driver (Orchestrator)\<close>

text \<open>The private \<open>getBlockedAgentType\<close> of the Orchestrator class.\<close>

definition orchestrator_getBlockedAgentType :: "string \<Rightarrow> agent_type option" where
  "orchestrator_getBlockedAgentType agentName =
     (if agentName = ''po'' then Some Agent_po
      else if agentName = ''tech_lead'' then Some Agent_tech_lead
      else if startsWith agentName ''dev'' then Some Agent_dev
      else None)"

text \<open>\<open>BlockingHandler.processQuestion\<close>; \<open>answer\<close> is the line the user types when
  prompted.\<close>

definition processQuestion ::
  "nat \<Rightarrow> string \<Rightarrow> string \<Rightarrow> filesystem \<Rightarrow> string
     \<Rightarrow> error + (routing \<times> string option \<times> filesystem)" where
  "processQuestion now_ms iso_now answer fs qfile =
     (case parseQuestionFile fs qfile of
        Inl e \<Rightarrow> Inl e
      | Inr parsedQuestion \<Rightarrow>
          (let r = routeQuestion parsedQuestion
           in if r = Prompt_user
              then (let response = trim answer
                    in Inr (r, Some response, snd (writeResponse now_ms iso_now fs qfile response)))
              else Inr (r, None, fs)))"

definition routing_recipient :: "routing \<Rightarrow> QuestionRecipient" where
  "routing_recipient r = (case r of Prompt_user \<Rightarrow> User | Spawn_po \<Rightarrow> Po | Spawn_tech_lead \<Rightarrow> Tech_lead)"

text \<open>
  \<open>Orchestrator.handleBlockingQuestion\<close>. The state manager saves after each of its
  operations, so the result carries the state last saved even when an exception ends
  the method: the first component is the exception, if any.
\<close>

definition handleBlockingQuestion ::
  "nat \<Rightarrow> string \<Rightarrow> string \<Rightarrow> State \<Rightarrow> filesystem \<Rightarrow> string \<Rightarrow> string
     \<Rightarrow> error option \<times> State \<times> filesystem" where
  "handleBlockingQuestion now_ms iso_now answer state fs qfile agentName =
     (case parseQuestionFile fs qfile of
        Inl e \<Rightarrow> (Some e, state, fs)
      | Inr parsedQuestion \<Rightarrow>
          (let r = routeQuestion parsedQuestion;
               state1 = setBlocked iso_now state (orchestrator_getBlockedAgentType agentName) qfile
                          (Some (routing_recipient r))
           in (case processQuestion now_ms iso_now answer fs qfile of
                 Inl e \<Rightarrow> (Some e, state1, fs)
               | Inr (r', response, fs') \<Rightarrow>
                   if truthy_string response then (None, clearBlocked iso_now state1, fs')
                   else (None, state1, fs'))))"

text \<open>
  The states the state store can reach from the initial state, by any of its operations
  with any arguments of their types.
\<close>

inductive_set store_reachable :: "State set" where
  sr_init: "createInitialState now \<in> store_reachable"
| sr_transition: "s \<in> store_reachable \<Longrightarrow> transitionPhase now s p = Inr s' \<Longrightarrow> s' \<in> store_reachable"
| sr_setBlocked: "s \<in> store_reachable \<Longrightarrow> setBlocked now s agent qfile waiting \<in> store_reachable"
| sr_clearBlocked: "s \<in> store_reachable \<Longrightarrow> clearBlocked now s \<in> store_reachable"
| sr_setCurrentAgent: "s \<in> store_reachable \<Longrightarrow> setCurrentAgent now s agent \<in> store_reachable"
| sr_add: "s \<in> store_reachable \<Longrightarrow> addDevSession now s a ts = Inr s' \<Longrightarrow> s' \<in> store_reachable"
| sr_update: "s \<in> store_reachable \<Longrightarrow> updateDevSession now s a u = Inr s' \<Longrightarrow> s' \<in> store_reachable"
| sr_remove: "s \<in> store_reachable \<Longrightarrow> removeDevSession now s a = Inr s' \<Longrightarrow> s' \<in> store_reachable"

text \<open>
  The states the driver can reach: the state-store calls the Orchestrator makes, with
  the arguments it makes them with. The agent names it blocks are \<open>"po"\<close> and
  \<open>"tech_lead"\<close> (\<open>handleBlockingForAgent\<close>) and \<open>dev-<area>\<close> (\<open>monitorDevSessions\<close>); the
  sessions it adds are those of \<open>areasToDevSessionInput(parseAreasFromIssues())\<close>; the
  only field it updates in a session is the status.
\<close>

definition driver_agent_name :: "string \<Rightarrow> bool" where
  "driver_agent_name n = (n = ''po'' \<or> n = ''tech_lead'' \<or> startsWith n ''dev-'')"

inductive_set driver_reachable :: "State set" where
  dr_init: "createInitialState now \<in> driver_reachable"
| dr_transition: "s \<in> driver_reachable \<Longrightarrow> transitionPhase now s p = Inr s' \<Longrightarrow> s' \<in> driver_reachable"
| dr_setCurrentAgent: "s \<in> driver_reachable \<Longrightarrow> setCurrentAgent now s agent \<in> driver_reachable"
| dr_seed: "s \<in> driver_reachable
     \<Longrightarrow> x \<in> set (areasToDevSessionInput (parseAreasFromIssues areas issuesByArea))
     \<Longrightarrow> addDevSession now s (in_area x) (in_tickets x) = Inr s' \<Longrightarrow> s' \<in> driver_reachable"
| dr_status: "s \<in> driver_reachable
     \<Longrightarrow> updateDevSession now s a \<lparr>upd_tickets = None, upd_status = Some st\<rparr> = Inr s'
     \<Longrightarrow> s' \<in> driver_reachable"
| dr_block: "s \<in> driver_reachable \<Longrightarrow> driver_agent_name agentName
     \<Longrightarrow> setBlocked now s (orchestrator_getBlockedAgentType agentName) qfile (Some r) \<in> driver_reachable"
| dr_clear: "s \<in> driver_reachable \<Longrightarrow> clearBlocked now s \<in> driver_reachable"

section \<open>Phase transitions\<close>

lemma isValidTransition_cases:
  "isValidTransition f t =
     ((f, t) \<in> {(Init, Po_conversation), (Po_conversation, Tech_lead_design),
                (Tech_lead_design, Dev_sessions), (Dev_sessions, Completed)})"
  by (cases f; cases t) (simp_all add: isValidTransition_def)

lemma spec_successor_cases:
  "(spec_successor f = Some t) =
     ((f, t) \<in> {(Init, Po_conversation), (Po_conversation, Tech_lead_design),
                (Tech_lead_design, Dev_sessions), (Dev_sessions, Completed)})"
  by (cases f; cases t) (simp_all add: spec_successor_def spec_phase_order_def)

text \<open>
  Claim C1. \<open>isValidTransition from to\<close> holds exactly when \<open>to\<close> is the successor of
  \<open>from\<close> in the order init, po_conversation, tech_lead_design, dev_sessions, completed;
  nothing is a valid successor of completed. \<open>transitionPhase\<close> fails with a StateError
  exactly when the transition is not valid, and otherwise returns a state whose phase is
  the new phase.
\<close>

theorem C1_transitions:
  "isValidTransition f t = (spec_successor f = Some t)
   \<and> \<not> isValidTransition Completed t
   \<and> ((\<exists>e. transitionPhase now s p = Inl e) = (\<not> isValidTransition (phase s) p))
   \<and> (transitionPhase now s p = Inl StateError \<or> (\<exists>s'. transitionPhase now s p = Inr s' \<and> phase s' = p))
   \<and> (isValidTransition (phase s) p \<longrightarrow> (\<exists>s'. transitionPhase now s p = Inr s' \<and> phase s' = p))"
  by (simp add: isValidTransition_cases spec_successor_cases transitionPhase_def)

theorem C1_transitions_witness:
  "isValidTransition (phase (createInitialState ''t0'')) Po_conversation
   \<and> (\<exists>s'. transitionPhase ''t1'' (createInitialState ''t0'') Po_conversation = Inr s'
            \<and> phase s' = Po_conversation)"
  using C1_transitions [of Init Po_conversation "''t1''" "createInitialState ''t0''" Po_conversation]
  by (simp add: createInitialState_def isValidTransition_cases)

section \<open>Exit codes\<close>

lemma findIndex_None: "(findIndex P xs = None) = (\<forall>x\<in>set xs. \<not> P x)"
  by (induction xs) (auto split: option.splits)

lemma findIndex_Some: "findIndex P xs = Some i \<Longrightarrow> i < length xs \<and> P (xs ! i)"
  by (induction xs arbitrary: i) (auto split: if_splits option.splits)

lemma startsWith_path_join:
  assumes "startsWith p (dir @ ''/'')"
  shows "path_join dir (drop (Suc (length dir)) p) = p"
proof -
  from assms have "take (Suc (length dir)) p = dir @ ''/''"
    by (simp add: startsWith_def)
  then have "p = (dir @ ''/'') @ drop (Suc (length dir)) p"
    by (metis append_take_drop_id)
  then show ?thesis
    by (simp add: path_join_def)
qed

lemma listQuestionFiles_exist: "q \<in> set (listQuestionFiles fs) \<Longrightarrow> q \<in> fst ` set fs"
  by (force simp: listQuestionFiles_def question_file_paths_def readdirSync_def startsWith_path_join)

lemma find_in_set: "List.find P xs = Some x \<Longrightarrow> x \<in> set xs \<and> P x"
  by (induction xs) (auto split: if_splits)

lemma findLatest_exists:
  "findLatestUnansweredQuestion fs = Some q \<Longrightarrow> existsSync fs q"
proof -
  assume "findLatestUnansweredQuestion fs = Some q"
  then have "q \<in> set (listQuestionFiles fs)"
    by (simp add: findLatestUnansweredQuestion_def find_in_set)
  then have "q \<in> fst ` set fs"
    by (rule listQuestionFiles_exist)
  then show ?thesis
    by (simp add: existsSync_def map_of_eq_None_iff)
qed

lemma checkBlocking_total: "\<exists>qf needs. checkBlockingForTechLead fs = Inr (qf, needs)"
proof (cases "findLatestUnansweredQuestion fs")
  case None
  then show ?thesis by (auto simp: checkBlockingForTechLead_def)
next
  case (Some q)
  then have "existsSync fs q" by (rule findLatest_exists)
  then obtain f where "map_of fs q = Some f"
    by (auto simp: existsSync_def)
  with Some show ?thesis
    by (simp add: checkBlockingForTechLead_def parseQuestionFile_def readFileSync_def)
qed

lemma toDevAgentResult_total:
  "\<exists>r. toDevAgentResult fs a res = Inr r \<and> r_area r = a \<and> agentResult r = res
       \<and> r_status r = (if exitCode res = 0 then Success else if exitCode res = 2 then Blocked else Error)
       \<and> (r_status r = Blocked \<or> r_questionFile r = None)"
proof -
  obtain qf needs where "checkBlockingForTechLead fs = Inr (qf, needs)"
    using checkBlocking_total by blast
  then show ?thesis
    by (simp add: toDevAgentResult_def isSuccess_def isBlocked_result_def
        EXIT_SUCCESS_def EXIT_BLOCKED_def)
qed

text \<open>
  Claim C3. An exit code is classified as one of three statuses: 0 is success, 1 is
  error, 2 is blocked, and the result of a dev session has status success for code 0,
  blocked for code 2 and error for every other code.
\<close>

theorem C3_exit_code_classification:
  "isSuccessExitCode c = (c = 0) \<and> isErrorExitCode c = (c = 1) \<and> isBlockedExitCode c = (c = 2)
   \<and> isSuccess res = (exitCode res = 0) \<and> isError res = (exitCode res = 1)
   \<and> isBlocked_result res = (exitCode res = 2)
   \<and> (\<exists>r. toDevAgentResult fs a res = Inr r
          \<and> r_status r = (if exitCode res = 0 then Success
                          else if exitCode res = 2 then Blocked else Error))"
  using toDevAgentResult_total [of fs a res]
  by (auto simp: isSuccessExitCode_def isErrorExitCode_def isBlockedExitCode_def isSuccess_def
      isError_def isBlocked_result_def EXIT_SUCCESS_def EXIT_ERROR_def EXIT_BLOCKED_def)

section \<open>Processes ended by a signal\<close>

text \<open>
  Claim C10. When the child process is ended by a signal, so that the close event
  reports no exit code and a signal name, the resolved result has exit code 1 and
  \<open>killed\<close> true; it is an error, neither a success nor blocked, and a dev session with
  this result has status error.
\<close>

theorem C10_signal_exit:
  assumes "sig \<noteq> []"
  shows "agent_result (Close None (Some sig) k out err) = Inr (onClose None (Some sig) k out err)
    \<and> exitCode (onClose None (Some sig) k out err) = 1
    \<and> killed (onClose None (Some sig) k out err)
    \<and> isError (onClose None (Some sig) k out err)
    \<and> \<not> isSuccess (onClose None (Some sig) k out err)
    \<and> \<not> isBlocked_result (onClose None (Some sig) k out err)
    \<and> (\<exists>r. toDevAgentResult fs a (onClose None (Some sig) k out err) = Inr r \<and> r_status r = Error)"
proof -
  have code: "exitCode (onClose None (Some sig) k out err) = 1"
    using assms by (simp add: onClose_def truthy_string_def)
  obtain r where "toDevAgentResult fs a (onClose None (Some sig) k out err) = Inr r"
    and "r_status r = (if exitCode (onClose None (Some sig) k out err) = 0 then Success
                       else if exitCode (onClose None (Some sig) k out err) = 2 then Blocked else Error)"
    using toDevAgentResult_total by blast
  with code have "\<exists>r. toDevAgentResult fs a (onClose None (Some sig) k out err) = Inr r \<and> r_status r = Error"
    by simp
  with code show ?thesis
    by (simp add: agent_result_def isError_def isSuccess_def isBlocked_result_def
        EXIT_SUCCESS_def EXIT_ERROR_def EXIT_BLOCKED_def) (simp add: onClose_def)
qed

theorem C10_signal_exit_witness:
  "exitCode (onClose None (Some ''SIGTERM'') False [] []) = 1
   \<and> killed (onClose None (Some ''SIGTERM'') False [] [])
   \<and> isError (onClose None (Some ''SIGTERM'') False [] [])
   \<and> \<not> isSuccess (onClose None (Some ''SIGTERM'') False [] [])
   \<and> (\<exists>r. toDevAgentResult [] ''api'' (onClose None (Some ''SIGTERM'') False [] []) = Inr r
          \<and> r_status r = Error)"
  using C10_signal_exit [of "''SIGTERM''" False "[]" "[]" "[]" "''api''"] by simp

section \<open>The blocked state\<close>

lemma store_blocked_invariant:
  "s \<in> store_reachable \<Longrightarrow>
     isBlocked (blocked s) = (questionFile (blocked s) \<noteq> None)
     \<and> (isBlocked (blocked s) \<or> (blockedAgent (blocked s) = None \<and> waitingFor (blocked s) = None))"
proof (induction rule: store_reachable.induct)
  case (sr_init now)
  show ?case by (simp add: createInitialState_def)
next
  case (sr_transition s now p s')
  then show ?case by (auto simp: transitionPhase_def split: if_splits)
next
  case (sr_setBlocked s now agent qfile waiting)
  show ?case by (simp add: setBlocked_def)
next
  case (sr_clearBlocked s now)
  show ?case by (simp add: clearBlocked_def)
next
  case (sr_setCurrentAgent s now agent)
  then show ?case by (auto simp: setCurrentAgent_def)
next
  case (sr_add s now a ts s')
  then show ?case by (auto simp: addDevSession_def split: option.splits)
next
  case (sr_update s now a u s')
  then show ?case by (auto simp: updateDevSession_def split: option.splits)
next
  case (sr_remove s now a s')
  then show ?case by (auto simp: removeDevSession_def split: option.splits)
qed

lemma startsWith_iff: "startsWith s p = (\<exists>r. s = p @ r)"
proof
  assume "startsWith s p"
  then have "s = p @ drop (length p) s"
    by (metis append_take_drop_id startsWith_def)
  then show "\<exists>r. s = p @ r" ..
next
  assume "\<exists>r. s = p @ r"
  then show "startsWith s p"
    by (auto simp: startsWith_def)
qed

lemma driver_agent_name_type:
  assumes "driver_agent_name n"
  shows "orchestrator_getBlockedAgentType n \<noteq> None"
proof -
  have "startsWith n ''dev''" if "startsWith n ''dev-''"
  proof -
    from that obtain r where "n = ''dev-'' @ r"
      by (auto simp: startsWith_iff)
    then show ?thesis
      by (simp add: startsWith_def)
  qed
  with assms show ?thesis
    by (auto simp: driver_agent_name_def orchestrator_getBlockedAgentType_def)
qed

lemma driver_blocked_invariant:
  "s \<in> driver_reachable \<Longrightarrow>
     isBlocked (blocked s) =
       (blockedAgent (blocked s) \<noteq> None \<and> questionFile (blocked s) \<noteq> None
        \<and> waitingFor (blocked s) \<noteq> None)
     \<and> (isBlocked (blocked s) \<or>
          (blockedAgent (blocked s) = None \<and> questionFile (blocked s) = None
           \<and> waitingFor (blocked s) = None))"
proof (induction rule: driver_reachable.induct)
  case (dr_init now)
  show ?case by (simp add: createInitialState_def)
next
  case (dr_transition s now p s')
  then show ?case by (auto simp: transitionPhase_def split: if_splits)
next
  case (dr_setCurrentAgent s now agent)
  then show ?case by (auto simp: setCurrentAgent_def)
next
  case (dr_seed s x areas issuesByArea now s')
  then show ?case by (auto simp: addDevSession_def split: option.splits)
next
  case (dr_status s now a st s')
  then show ?case by (auto simp: updateDevSession_def split: option.splits)
next
  case (dr_block s agentName now qfile r)
  then show ?case by (simp add: setBlocked_def driver_agent_name_type)
next
  case (dr_clear s now)
  show ?case by (simp add: clearBlocked_def)
qed

lemma handleBlockingQuestion_reachable:
  assumes "s \<in> driver_reachable" and "driver_agent_name agentName"
  shows "fst (snd (handleBlockingQuestion now_ms iso_now answer s fs qfile agentName)) \<in> driver_reachable"
proof (cases "parseQuestionFile fs qfile")
  case (Inl e)
  with assms show ?thesis by (simp add: handleBlockingQuestion_def)
next
  case (Inr pq)
  let ?s1 = "setBlocked iso_now s (orchestrator_getBlockedAgentType agentName) qfile
               (Some (routing_recipient (routeQuestion pq)))"
  have s1: "?s1 \<in> driver_reachable"
    using assms by (rule dr_block)
  then have "clearBlocked iso_now ?s1 \<in> driver_reachable"
    by (rule dr_clear)
  with s1 Inr show ?thesis
    by (auto simp: handleBlockingQuestion_def Let_def split: sum.splits prod.splits)
qed

text \<open>
  Claim C7, as amended. In every state the driver reaches, \<open>isBlocked\<close> is true exactly
  when \<open>blockedAgent\<close>, \<open>questionFile\<close> and \<open>waitingFor\<close> are all non-null, and when it is
  false all three are null; \<open>handleBlockingQuestion\<close> keeps the driver inside these
  states. In every state the state store reaches by its own operations, \<open>isBlocked\<close> is
  true exactly when \<open>questionFile\<close> is non-null, and when it is false the other two
  fields are null. \<open>clearBlocked\<close> sets the four fields to false, null, null, null at
  once.
\<close>

theorem C7_blocked_invariant:
  "(s \<in> driver_reachable \<longrightarrow>
      isBlocked (blocked s) =
        (blockedAgent (blocked s) \<noteq> None \<and> questionFile (blocked s) \<noteq> None
         \<and> waitingFor (blocked s) \<noteq> None)
      \<and> (isBlocked (blocked s) \<or>
           (blockedAgent (blocked s) = None \<and> questionFile (blocked s) = None
            \<and> waitingFor (blocked s) = None)))
   \<and> (s \<in> driver_reachable \<and> driver_agent_name agentName \<longrightarrow>
        fst (snd (handleBlockingQuestion now_ms iso_now answer s fs qfile agentName)) \<in> driver_reachable)
   \<and> (s \<in> store_reachable \<longrightarrow>
        isBlocked (blocked s) = (questionFile (blocked s) \<noteq> None)
        \<and> (isBlocked (blocked s) \<or> (blockedAgent (blocked s) = None \<and> waitingFor (blocked s) = None)))
   \<and> blocked (clearBlocked now s) =
        \<lparr>isBlocked = False, blockedAgent = None, questionFile = None, waitingFor = None\<rparr>"
  using driver_blocked_invariant [of s] store_blocked_invariant [of s]
    handleBlockingQuestion_reachable [of s agentName now_ms iso_now answer fs qfile]
  by (auto simp: clearBlocked_def)

lemma blocked_dev_state_reachable:
  "setBlocked ''t1'' (createInitialState ''t0'') (orchestrator_getBlockedAgentType ''dev-api'')
     ''.orchestrator/questions/q-001.md'' (Some Tech_lead) \<in> driver_reachable"
  by (rule dr_block [OF dr_init]) (simp add: driver_agent_name_def startsWith_def)

lemma driver_subset_store: "s \<in> driver_reachable \<Longrightarrow> s \<in> store_reachable"
  by (induction rule: driver_reachable.induct) (auto intro: store_reachable.intros)

theorem C7_blocked_invariant_witness:
  "setBlocked ''t1'' (createInitialState ''t0'') (orchestrator_getBlockedAgentType ''dev-api'')
     ''.orchestrator/questions/q-001.md'' (Some Tech_lead) \<in> driver_reachable
   \<and> setBlocked ''t1'' (createInitialState ''t0'') (orchestrator_getBlockedAgentType ''dev-api'')
       ''.orchestrator/questions/q-001.md'' (Some Tech_lead) \<in> store_reachable
   \<and> driver_agent_name ''dev-api''
   \<and> blocked (setBlocked ''t1'' (createInitialState ''t0'') (orchestrator_getBlockedAgentType ''dev-api'')
       ''.orchestrator/questions/q-001.md'' (Some Tech_lead))
      = \<lparr>isBlocked = True, blockedAgent = Some Agent_dev,
         questionFile = Some ''.orchestrator/questions/q-001.md'', waitingFor = Some Tech_lead\<rparr>
   \<and> fst (snd (handleBlockingQuestion 5 ''t2'' ''yes''
        (setBlocked ''t1'' (createInitialState ''t0'') (orchestrator_getBlockedAgentType ''dev-api'')
           ''.orchestrator/questions/q-001.md'' (Some Tech_lead))
        [] ''.orchestrator/questions/q-001.md'' ''dev-api'')) \<in> driver_reachable"
  using C7_blocked_invariant
    [of "setBlocked ''t1'' (createInitialState ''t0'') (orchestrator_getBlockedAgentType ''dev-api'')
           ''.orchestrator/questions/q-001.md'' (Some Tech_lead)"
        "''dev-api''" 5 "''t2''" "''yes''" "[]" "''.orchestrator/questions/q-001.md''" "''t3''"]
    blocked_dev_state_reachable
  by (simp add: driver_subset_store driver_agent_name_def startsWith_def setBlocked_def
      orchestrator_getBlockedAgentType_def)

theorem C7_counterexample:
  "setBlocked ''t1'' (createInitialState ''t0'') None ''.orchestrator/questions/q-001.md'' None
     \<in> store_reachable
   \<and> isBlocked (blocked (setBlocked ''t1'' (createInitialState ''t0'') None
        ''.orchestrator/questions/q-001.md'' None))
   \<and> blockedAgent (blocked (setBlocked ''t1'' (createInitialState ''t0'') None
        ''.orchestrator/questions/q-001.md'' None)) = None
   \<and> waitingFor (blocked (setBlocked ''t1'' (createInitialState ''t0'') None
        ''.orchestrator/questions/q-001.md'' None)) = None"
  by (simp add: sr_setBlocked sr_init) (simp add: setBlocked_def)

section \<open>Dev sessions in the state\<close>

lemma map_area_update:
  "map area (xs[i := apply_updates (xs ! i) u]) = map area xs"
proof (cases "i < length xs")
  case True
  have "map area (xs[i := apply_updates (xs ! i) u]) = (map area xs)[i := area (apply_updates (xs ! i) u)]"
    by (rule map_update)
  also have "area (apply_updates (xs ! i) u) = map area xs ! i"
    using True by (simp add: apply_updates_def)
  finally show ?thesis
    by simp
next
  case False
  then have "xs[i := apply_updates (xs ! i) u] = xs"
    by (intro list_update_beyond) simp
  then show ?thesis by simp
qed

lemma store_distinct_areas:
  "s \<in> store_reachable \<Longrightarrow> distinct (map area (devSessions s))"
proof (induction rule: store_reachable.induct)
  case (sr_init now)
  show ?case by (simp add: createInitialState_def)
next
  case (sr_transition s now p s')
  then show ?case by (auto simp: transitionPhase_def split: if_splits)
next
  case (sr_setBlocked s now agent qfile waiting)
  then show ?case by (simp add: setBlocked_def)
next
  case (sr_clearBlocked s now)
  then show ?case by (simp add: clearBlocked_def)
next
  case (sr_setCurrentAgent s now agent)
  then show ?case by (simp add: setCurrentAgent_def)
next
  case (sr_add s now a ts s')
  then show ?case
    by (auto simp: addDevSession_def findIndex_None split: option.splits)
next
  case (sr_update s now a u s')
  then show ?case
    by (auto simp: updateDevSession_def map_area_update split: option.splits)
next
  case (sr_remove s now a s')
  then show ?case
    by (auto simp: removeDevSession_def distinct_map_filter split: option.splits)
qed

lemma addDevSession_existing:
  assumes "a \<in> area ` set (devSessions s)"
  shows "addDevSession now s a ts = Inl StateError"
proof -
  from assms have "findIndex (\<lambda>x. area x = a) (devSessions s) \<noteq> None"
    by (auto simp: findIndex_None)
  then show ?thesis
    by (auto simp: addDevSession_def)
qed

lemma parseAreasFromIssues_nonempty:
  "x \<in> set (parseAreasFromIssues areas issuesByArea) \<Longrightarrow> a_ticketNumbers x \<noteq> []"
  by (induction areas) (auto simp: Let_def split: if_splits)

lemma seeded_tickets_nonempty:
  "x \<in> set (areasToDevSessionInput (parseAreasFromIssues areas issuesByArea)) \<Longrightarrow> in_tickets x \<noteq> []"
  by (auto simp: areasToDevSessionInput_def dest: parseAreasFromIssues_nonempty)

lemma status_update_tickets:
  assumes "\<forall>d\<in>set xs. tickets d \<noteq> []" and "i < length xs"
  shows "\<forall>d\<in>set (xs[i := apply_updates (xs ! i) \<lparr>upd_tickets = None, upd_status = Some st\<rparr>]). tickets d \<noteq> []"
proof
  fix d
  assume "d \<in> set (xs[i := apply_updates (xs ! i) \<lparr>upd_tickets = None, upd_status = Some st\<rparr>])"
  then have "d = apply_updates (xs ! i) \<lparr>upd_tickets = None, upd_status = Some st\<rparr> \<or> d \<in> set xs"
    using set_update_subset_insert by fastforce
  with assms show "tickets d \<noteq> []"
    by (auto simp: apply_updates_def)
qed

lemma driver_tickets_nonempty:
  "s \<in> driver_reachable \<Longrightarrow> \<forall>d\<in>set (devSessions s). tickets d \<noteq> []"
proof (induction rule: driver_reachable.induct)
  case (dr_init now)
  show ?case by (simp add: createInitialState_def)
next
  case (dr_transition s now p s')
  then show ?case by (auto simp: transitionPhase_def split: if_splits)
next
  case (dr_setCurrentAgent s now agent)
  then show ?case by (simp add: setCurrentAgent_def)
next
  case (dr_seed s x areas issuesByArea now s')
  from dr_seed.hyps(2) have "in_tickets x \<noteq> []"
    by (rule seeded_tickets_nonempty)
  with dr_seed show ?case
    by (auto simp: addDevSession_def split: option.splits)
next
  case (dr_status s now a st s')
  then show ?case
    using status_update_tickets [of "devSessions s"]
    by (auto simp: updateDevSession_def split: option.splits dest: findIndex_Some)
next
  case (dr_block s agentName now qfile r)
  then show ?case by (simp add: setBlocked_def)
next
  case (dr_clear s now)
  then show ?case by (simp add: clearBlocked_def)
qed

text \<open>
  Claim C8, as amended. In every state the state store reaches, no two dev sessions
  have the same area, and \<open>addDevSession\<close> on an area that is already there fails with a
  StateError. The sessions the driver creates have a non-empty tickets list, in every
  state the driver reaches; the state store itself accepts an empty list.
\<close>

theorem C8_dev_sessions:
  "(s \<in> store_reachable \<longrightarrow> distinct (map area (devSessions s)))
   \<and> (a \<in> area ` set (devSessions s) \<longrightarrow> addDevSession now s a ts = Inl StateError)
   \<and> (s \<in> driver_reachable \<longrightarrow>
        distinct (map area (devSessions s)) \<and> (\<forall>d\<in>set (devSessions s). tickets d \<noteq> []))"
  using store_distinct_areas [of s] addDevSession_existing [of a s now ts]
    driver_tickets_nonempty [of s] driver_subset_store [of s]
  by blast

lemma seeded_state_reachable:
  "\<lparr>phase = Init,
    blocked = \<lparr>isBlocked = False, blockedAgent = None, questionFile = None, waitingFor = None\<rparr>,
    devSessions = [\<lparr>area = ''frontend'', tickets = [1, 3], status = Pending\<rparr>],
    currentAgent = None, lastUpdated = ''t1''\<rparr> \<in> driver_reachable"
proof -
  let ?issues = "\<lambda>a. [\<lparr>i_number = 1, i_title = ''a'', i_state = Open\<rparr>,
                       \<lparr>i_number = 2, i_title = ''b'', i_state = Closed\<rparr>,
                       \<lparr>i_number = 3, i_title = ''c'', i_state = Open\<rparr>]"
  have "\<lparr>in_area = ''frontend'', in_tickets = [1, 3]\<rparr>
          \<in> set (areasToDevSessionInput (parseAreasFromIssues [''frontend''] ?issues))"
    by (simp add: areasToDevSessionInput_def)
  moreover have "addDevSession ''t1'' (createInitialState ''t0'')
        (in_area \<lparr>in_area = ''frontend'', in_tickets = [1, 3]\<rparr>)
        (in_tickets \<lparr>in_area = ''frontend'', in_tickets = [1, 3]\<rparr>)
      = Inr \<lparr>phase = Init,
          blocked = \<lparr>isBlocked = False, blockedAgent = None, questionFile = None, waitingFor = None\<rparr>,
          devSessions = [\<lparr>area = ''frontend'', tickets = [1, 3], status = Pending\<rparr>],
          currentAgent = None, lastUpdated = ''t1''\<rparr>"
    by (simp add: addDevSession_def createInitialState_def)
  ultimately show ?thesis
    using dr_seed [OF dr_init] by blast
qed

theorem C8_dev_sessions_witness:
  "\<lparr>phase = Init,
     blocked = \<lparr>isBlocked = False, blockedAgent = None, questionFile = None, waitingFor = None\<rparr>,
     devSessions = [\<lparr>area = ''frontend'', tickets = [1, 3], status = Pending\<rparr>],
     currentAgent = None, lastUpdated = ''t1''\<rparr> \<in> driver_reachable
   \<and> addDevSession ''t2''
       \<lparr>phase = Init,
        blocked = \<lparr>isBlocked = False, blockedAgent = None, questionFile = None, waitingFor = None\<rparr>,
        devSessions = [\<lparr>area = ''frontend'', tickets = [1, 3], status = Pending\<rparr>],
        currentAgent = None, lastUpdated = ''t1''\<rparr> ''frontend'' [4, 5] = Inl StateError"
  using C8_dev_sessions
    [of "\<lparr>phase = Init,
          blocked = \<lparr>isBlocked = False, blockedAgent = None, questionFile = None, waitingFor = None\<rparr>,
          devSessions = [\<lparr>area = ''frontend'', tickets = [1, 3], status = Pending\<rparr>],
          currentAgent = None, lastUpdated = ''t1''\<rparr>" "''frontend''" "''t2''" "[4, 5]"]
    seeded_state_reachable
  by simp

theorem C8_counterexample:
  "addDevSession ''t1'' (createInitialState ''t0'') ''frontend'' []
     = Inr \<lparr>phase = Init,
         blocked = \<lparr>isBlocked = False, blockedAgent = None, questionFile = None, waitingFor = None\<rparr>,
         devSessions = [\<lparr>area = ''frontend'', tickets = [], status = Pending\<rparr>],
         currentAgent = None, lastUpdated = ''t1''\<rparr>
   \<and> \<lparr>phase = Init,
       blocked = \<lparr>isBlocked = False, blockedAgent = None, questionFile = None, waitingFor = None\<rparr>,
       devSessions = [\<lparr>area = ''frontend'', tickets = [], status = Pending\<rparr>],
       currentAgent = None, lastUpdated = ''t1''\<rparr> \<in> store_reachable"
proof -
  have eq: "addDevSession ''t1'' (createInitialState ''t0'') ''frontend'' []
     = Inr \<lparr>phase = Init,
         blocked = \<lparr>isBlocked = False, blockedAgent = None, questionFile = None, waitingFor = None\<rparr>,
         devSessions = [\<lparr>area = ''frontend'', tickets = [], status = Pending\<rparr>],
         currentAgent = None, lastUpdated = ''t1''\<rparr>"
    by (simp add: addDevSession_def createInitialState_def)
  then show ?thesis
    using sr_add [OF sr_init] by blast
qed

section \<open>Terminating an agent\<close>

text \<open>
  Claim C9, as amended. \<open>kill\<close> does nothing exactly when the child's \<open>killed\<close> flag is
  already set: it makes no call to the underlying \<open>kill\<close> and arms no timer. Otherwise it
  calls the underlying \<open>kill\<close> once, with SIGTERM, and arms one timer of 5000
  milliseconds; when that call was made on a process that had not exited, a second
  \<open>kill\<close> does nothing.
\<close>

theorem C9_kill:
  "(cp_killed p \<longrightarrow> kill p = (p, []))
   \<and> (\<not> cp_killed p \<longrightarrow>
        cp_signals (fst (kill p)) = cp_signals p @ [SIGTERM] \<and> snd (kill p) = [5000])
   \<and> (\<not> cp_killed p \<and> \<not> cp_exited p \<longrightarrow> kill (fst (kill p)) = (fst (kill p), []))"
  by (simp add: kill_def child_kill_def)

theorem C9_kill_witness:
  "kill \<lparr>cp_killed = True, cp_exited = False, cp_signals = [SIGTERM]\<rparr>
     = (\<lparr>cp_killed = True, cp_exited = False, cp_signals = [SIGTERM]\<rparr>, [])
   \<and> cp_signals (fst (kill \<lparr>cp_killed = False, cp_exited = False, cp_signals = []\<rparr>)) = [SIGTERM]
   \<and> snd (kill \<lparr>cp_killed = False, cp_exited = False, cp_signals = []\<rparr>) = [5000]
   \<and> kill (fst (kill \<lparr>cp_killed = False, cp_exited = False, cp_signals = []\<rparr>))
       = (fst (kill \<lparr>cp_killed = False, cp_exited = False, cp_signals = []\<rparr>), [])"
  using C9_kill [of "\<lparr>cp_killed = True, cp_exited = False, cp_signals = [SIGTERM]\<rparr>"]
    C9_kill [of "\<lparr>cp_killed = False, cp_exited = False, cp_signals = []\<rparr>"]
  by simp

theorem C9_counterexample:
  "cp_exited \<lparr>cp_killed = False, cp_exited = True, cp_signals = []\<rparr>
   \<and> kill \<lparr>cp_killed = False, cp_exited = True, cp_signals = []\<rparr>
       = (\<lparr>cp_killed = False, cp_exited = True, cp_signals = [SIGTERM]\<rparr>, [5000])
   \<and> kill_timeout \<lparr>cp_killed = False, cp_exited = True, cp_signals = [SIGTERM]\<rparr>
       = \<lparr>cp_killed = False, cp_exited = True, cp_signals = [SIGTERM, SIGKILL]\<rparr>"
  by (simp add: kill_def kill_timeout_def child_kill_def)

section \<open>The latest unanswered question\<close>

lemma find_sorted_min:
  "sorted (map f xs) \<Longrightarrow> List.find P xs = Some x \<Longrightarrow> y \<in> set xs \<Longrightarrow> P y \<Longrightarrow> f x \<le> f y"
  by (induction xs) (auto split: if_splits)

lemma find_refine:
  "List.find P xs = Some x \<Longrightarrow> Q x \<Longrightarrow> (\<And>y. Q y \<Longrightarrow> P y) \<Longrightarrow> List.find Q xs = Some x"
  by (induction xs) (auto split: if_splits)

lemma find_filter_hd: "List.find P xs = (case filter P xs of [] \<Rightarrow> None | y # _ \<Rightarrow> Some y)"
  by (induction xs) auto

lemma latest_first_in_listing:
  assumes "List.find P (sort_key f xs) = Some x"
  shows "List.find (\<lambda>y. P y \<and> f y = f x) xs = Some x"
proof -
  have "List.find (\<lambda>y. P y \<and> f y = f x) (sort_key f xs) = Some x"
    using assms by (rule find_refine) (use assms in \<open>auto dest: find_in_set\<close>)
  moreover have "filter (\<lambda>y. P y \<and> f y = f x) (sort_key f xs) = filter (\<lambda>y. P y \<and> f y = f x) xs"
  proof -
    have A: "filter (\<lambda>y. P y \<and> f y = f x) zs = filter P (filter (\<lambda>y. f y = f x) zs)" for zs
      by (simp add: conj_commute)
    show ?thesis
      unfolding A by (simp only: sort_key_stable)
  qed
  ultimately show ?thesis
    by (simp add: find_filter_hd)
qed

lemma insort_key_cong':
  "f x = g x \<Longrightarrow> \<forall>y\<in>set ys. f y = g y \<Longrightarrow> insort_key f x ys = insort_key g x ys"
  by (induction ys) auto

lemma sort_key_cong':
  "\<forall>x\<in>set xs. f x = g x \<Longrightarrow> sort_key f xs = sort_key g xs"
proof (induction xs)
  case Nil
  show ?case by simp
next
  case (Cons x xs)
  then have "sort_key f xs = sort_key g xs" by simp
  moreover from Cons.prems have "insort_key f x (sort_key g xs) = insort_key g x (sort_key g xs)"
    by (intro insort_key_cong') simp_all
  ultimately show ?case by simp
qed

lemma rename_write:
  assumes "T \<noteq> R"
  shows "renameSync (writeFileSync fs T c t) T R
    = AList.update R \<lparr>content = c, mtimeMs = t\<rparr> (AList.delete T (AList.update T \<lparr>content = c, mtimeMs = t\<rparr> fs))"
  using assms by (simp add: renameSync_def writeFileSync_def update_conv')

lemma map_of_rename_write:
  assumes "T \<noteq> R"
  shows "map_of (renameSync (writeFileSync fs T c t) T R) p
    = (if p = R then Some \<lparr>content = c, mtimeMs = t\<rparr> else if p = T then None else map_of fs p)"
  using assms by (simp add: rename_write update_conv' delete_conv')

lemma keys_rename_write:
  assumes "T \<noteq> R" "\<not> P T" "\<not> P R"
  shows "filter P (map fst (renameSync (writeFileSync fs T c t) T R)) = filter P (map fst fs)"
proof -
  have rm: "filter P (removeAll T xs) = filter P xs" for xs
    using assms(2) by (induction xs) auto
  show ?thesis
    using assms by (simp add: rename_write update_keys delete_keys rm)
qed

lemma question_file_paths_alt:
  "question_file_paths fs = filter is_question_path (map fst fs)"
proof -
  have "question_file_paths fs
      = map (\<lambda>p. path_join QUESTIONS_DIR (drop (Suc (length QUESTIONS_DIR)) p))
          (filter is_question_path (map fst fs))"
    by (simp add: question_file_paths_def readdirSync_def filter_map comp_def is_question_path_def conj_ac)
  also have "\<dots> = map (\<lambda>p. p) (filter is_question_path (map fst fs))"
    by (rule map_cong) (auto simp: is_question_path_def startsWith_path_join)
  finally show ?thesis by simp
qed

lemma endsWith_drop:
  assumes "endsWith (drop n p) s"
  shows "endsWith p s"
proof (cases "n \<le> length p")
  case True
  from assms have len: "length s \<le> length p - n"
    and eq: "drop (length p - n - length s) (drop n p) = s"
    by (simp_all add: endsWith_def)
  from len True have "length p - n - length s + n = length p - length s"
    by simp
  with eq len show ?thesis
    by (auto simp: endsWith_def)
next
  case False
  with assms show ?thesis
    by (simp add: endsWith_def)
qed

lemma endsWith_md_last:
  assumes "endsWith s ''.md''"
  shows "s \<noteq> [] \<and> last s = CHR ''d''"
proof -
  from assms have l: "3 \<le> length s" and d: "drop (length s - 3) s = ''.md''"
    by (simp_all add: endsWith_def numeral_3_eq_3)
  from l have ne: "s \<noteq> []" by auto
  have "last s = last (drop (length s - 3) s)"
    using l by (simp add: last_drop)
  with d ne show ?thesis by simp
qed

lemma string_of_nat_last:
  "string_of_nat n \<noteq> [] \<and> last (string_of_nat n) = digit_char (n mod 10)"
  by (subst (1 2) string_of_nat.simps) simp

lemma digit_char_is_digit: "is_digit (digit_char (n mod 10))"
proof -
  have "n mod 10 < 10" by simp
  then show ?thesis
    by (simp add: digit_char_def is_digit_def)
qed

lemma digit_char_not_letter:
  "digit_char (n mod 10) \<noteq> CHR ''d''" "digit_char (n mod 10) \<noteq> CHR ''e''"
  using digit_char_is_digit [of n] by (auto simp: is_digit_def)

lemma is_question_path_md: "is_question_path p \<Longrightarrow> endsWith p ''.md''"
  by (auto simp: is_question_path_def dest: endsWith_drop)

lemma not_md_response: "\<not> endsWith (x @ ''.response'') ''.md''"
  by (auto dest: endsWith_md_last)

lemma not_md_tmp: "\<not> endsWith (x @ ''.tmp.'' @ string_of_nat n) ''.md''"
  using string_of_nat_last [of n] digit_char_not_letter [of n]
  by (auto dest!: endsWith_md_last)

lemma response_path_md:
  "endsWith q ''.md'' \<Longrightarrow> getResponseFilePath q = take (length q - 3) q @ ''.response''"
  by (simp add: getResponseFilePath_def)

lemma response_path_inj:
  assumes "endsWith q ''.md''" "endsWith q' ''.md''"
    and "getResponseFilePath q = getResponseFilePath q'"
  shows "q = q'"
proof -
  from assms have "take (length q - 3) q = take (length q' - 3) q'"
    by (simp add: response_path_md)
  moreover from assms have "drop (length q - 3) q = drop (length q' - 3) q'"
    by (simp add: endsWith_def numeral_3_eq_3)
  ultimately show ?thesis
    by (metis append_take_drop_id)
qed

lemma listQuestionFiles_set: "set (listQuestionFiles fs) = {p \<in> fst ` set fs. is_question_path p}"
  by (auto simp: listQuestionFiles_def question_file_paths_alt)

lemma findLatest_after_response:
  assumes "findLatestUnansweredQuestion fs = Some q"
  shows "findLatestUnansweredQuestion (snd (writeResponse now_ms iso_now fs q resp))
    = List.find (\<lambda>q'. \<not> hasResponse fs q' \<and> q' \<noteq> q) (listQuestionFiles fs)"
proof -
  define R where "R = getResponseFilePath q"
  define T where "T = R @ ''.tmp.'' @ string_of_nat now_ms"
  define c where "c = ''# Response'' @ [NL, NL] @ resp @ [NL, NL] @ ''Answered: '' @ iso_now @ [NL]"
  define fs' where "fs' = renameSync (writeFileSync fs T c (int now_ms)) T R"
  have fs': "snd (writeResponse now_ms iso_now fs q resp) = fs'"
    by (simp add: writeResponse_def Let_def fs'_def T_def R_def c_def)
  from assms have "q \<in> set (listQuestionFiles fs)"
    by (simp add: findLatestUnansweredQuestion_def find_in_set)
  then have qp: "is_question_path q"
    by (simp add: listQuestionFiles_set)
  then have qmd: "endsWith q ''.md''"
    by (rule is_question_path_md)
  then have R: "R = take (length q - 3) q @ ''.response''"
    by (simp add: R_def response_path_md)
  have TR: "T \<noteq> R"
    by (simp add: T_def)
  have nT: "\<not> is_question_path T"
    using not_md_tmp [of R now_ms] by (auto simp: T_def dest: is_question_path_md)
  have nR: "\<not> is_question_path R"
    using not_md_response by (auto simp: R dest: is_question_path_md)
  have paths: "question_file_paths fs' = question_file_paths fs"
    using TR nT nR by (simp add: question_file_paths_alt fs'_def keys_rename_write)
  have times: "\<forall>p\<in>set (question_file_paths fs). - mtime_at fs' p = - mtime_at fs p"
    using TR nT nR
    by (auto simp: question_file_paths_alt mtime_at_def fs'_def map_of_rename_write)
  have list: "listQuestionFiles fs' = listQuestionFiles fs"
    unfolding listQuestionFiles_def paths using times by (rule sort_key_cong')
  have answered: "(\<not> existsSync fs' (getResponseFilePath x)) = (\<not> hasResponse fs x \<and> x \<noteq> q)"
    if "x \<in> set (listQuestionFiles fs)" for x
  proof -
    from that have xmd: "endsWith x ''.md''"
      by (auto simp: listQuestionFiles_set dest: is_question_path_md)
    then have "getResponseFilePath x \<noteq> T"
      using string_of_nat_last [of now_ms] digit_char_not_letter [of now_ms]
      by (auto simp: T_def response_path_md dest!: arg_cong [where f = last])
    moreover have "(getResponseFilePath x = R) = (x = q)"
      using xmd qmd response_path_inj [of x q] by (auto simp: R_def)
    ultimately show ?thesis
      using TR by (auto simp: existsSync_def hasResponse_def fs'_def map_of_rename_write)
  qed
  show ?thesis
    unfolding fs' findLatestUnansweredQuestion_def list
    by (rule find_cong) (simp_all add: answered)
qed

lemma findLatest_None:
  "(findLatestUnansweredQuestion fs = None) = (\<forall>q\<in>set (question_file_paths fs). hasResponse fs q)"
  by (auto simp: findLatestUnansweredQuestion_def find_None_iff listQuestionFiles_def hasResponse_def)

lemma findLatest_Some:
  assumes "findLatestUnansweredQuestion fs = Some q"
  shows "q \<in> set (question_file_paths fs)" and "\<not> hasResponse fs q"
    and "\<forall>q'\<in>set (question_file_paths fs). \<not> hasResponse fs q' \<longrightarrow> mtime_at fs q' \<le> mtime_at fs q"
    and "List.find (\<lambda>q'. \<not> hasResponse fs q' \<and> mtime_at fs q' = mtime_at fs q) (question_file_paths fs) = Some q"
proof -
  let ?P = "\<lambda>q. \<not> existsSync fs (getResponseFilePath q)"
  let ?f = "\<lambda>p. - mtime_at fs p"
  from assms have f: "List.find ?P (sort_key ?f (question_file_paths fs)) = Some q"
    by (simp add: findLatestUnansweredQuestion_def listQuestionFiles_def)
  then show "q \<in> set (question_file_paths fs)" and "\<not> hasResponse fs q"
    by (auto simp: hasResponse_def dest: find_in_set)
  have "sorted (map ?f (sort_key ?f (question_file_paths fs)))"
    by (rule sorted_sort_key)
  then have "?f q \<le> ?f y" if "y \<in> set (question_file_paths fs)" "?P y" for y
    using f that find_sorted_min [of ?f "sort_key ?f (question_file_paths fs)" ?P q y] by simp
  then show "\<forall>q'\<in>set (question_file_paths fs). \<not> hasResponse fs q' \<longrightarrow> mtime_at fs q' \<le> mtime_at fs q"
    by (auto simp: hasResponse_def)
  from latest_first_in_listing [OF f]
  show "List.find (\<lambda>q'. \<not> hasResponse fs q' \<and> mtime_at fs q' = mtime_at fs q) (question_file_paths fs) = Some q"
    by (simp add: hasResponse_def)
qed

text \<open>
  Claim C4, as amended. \<open>findLatestUnansweredQuestion\<close> returns null exactly when every
  question file of the directory has a response file. Otherwise it returns a question
  file without a response whose modification time is the latest among those without a
  response; among several with that same time it returns the one that comes first in
  the directory listing. After \<open>writeResponse\<close> on the question it returned, the next
  call returns the first question of the newest-first list that is still without a
  response, or null.
\<close>

theorem C4_latest_unanswered:
  "((findLatestUnansweredQuestion fs = None) = (\<forall>q\<in>set (question_file_paths fs). hasResponse fs q))
   \<and> (findLatestUnansweredQuestion fs = Some q \<longrightarrow>
        q \<in> set (question_file_paths fs) \<and> \<not> hasResponse fs q
        \<and> (\<forall>q'\<in>set (question_file_paths fs). \<not> hasResponse fs q' \<longrightarrow> mtime_at fs q' \<le> mtime_at fs q)
        \<and> List.find (\<lambda>q'. \<not> hasResponse fs q' \<and> mtime_at fs q' = mtime_at fs q)
              (question_file_paths fs) = Some q
        \<and> findLatestUnansweredQuestion (snd (writeResponse now_ms iso_now fs q resp))
            = List.find (\<lambda>q'. \<not> hasResponse fs q' \<and> q' \<noteq> q) (listQuestionFiles fs))"
  using findLatest_None [of fs] findLatest_Some [of fs q]
    findLatest_after_response [of fs q now_ms iso_now resp]
  by blast

theorem C4_latest_unanswered_witness:
  "findLatestUnansweredQuestion example_questions = Some ''.orchestrator/questions/q-002.md''
   \<and> findLatestUnansweredQuestion
        (snd (writeResponse 7 ''2026'' example_questions ''.orchestrator/questions/q-002.md'' ''yes''))
       = Some ''.orchestrator/questions/q-001.md''"
proof -
  have h: "findLatestUnansweredQuestion example_questions = Some ''.orchestrator/questions/q-002.md''"
    by code_simp
  have e: "List.find (\<lambda>q'. \<not> hasResponse example_questions q' \<and> q' \<noteq> ''.orchestrator/questions/q-002.md'')
             (listQuestionFiles example_questions) = Some ''.orchestrator/questions/q-001.md''"
    by code_simp
  from C4_latest_unanswered [of example_questions "''.orchestrator/questions/q-002.md''" 7 "''2026''" "''yes''"] h e
  show ?thesis by simp
qed

theorem C4_counterexample:
  "findLatestUnansweredQuestion example_tie = Some ''.orchestrator/questions/q-001.md''
   \<and> \<not> hasResponse example_tie ''.orchestrator/questions/q-002.md''
   \<and> mtime_at example_tie ''.orchestrator/questions/q-002.md''
       = mtime_at example_tie ''.orchestrator/questions/q-001.md''
   \<and> ''.orchestrator/questions/q-001.md'' < ''.orchestrator/questions/q-002.md''"
  by code_simp

section \<open>Parsing a malformed question file\<close>

lemma parse_line_content:
  "is_content_line l \<Longrightarrow>
     parse_line st l = (if currentSection st \<noteq> No_section
                        then st\<lparr>sectionContent := sectionContent st @ [l]\<rparr> else st)"
  by (simp add: parse_line_def is_content_line_def)

lemma parse_line_header:
  "header_section l = Some sec \<Longrightarrow> parse_line st l = (saveSection st)\<lparr>currentSection := sec\<rparr>"
  by (auto simp: parse_line_def header_section_def split: if_splits)

lemma sharp_not_space: "\<not> is_space (CHR ''#'')"
  by (simp add: is_space_def)

lemma forMatch_not_from: "forMatch l = Some g \<Longrightarrow> fromMatch l = None"
proof -
  assume "forMatch l = Some g"
  then have "startsWith l ''##''"
    by (auto simp: forMatch_def split: if_splits)
  then obtain r where l: "l = ''##'' @ r"
    by (auto simp: startsWith_iff)
  have "toLowerCase_char (CHR ''#'') \<noteq> CHR ''q''"
    by code_simp
  then show ?thesis
    by (simp add: l fromMatch_def match_ci_def toLowerCase_def sharp_not_space)
qed

lemma parse_line_for:
  "forMatch l = Some g \<Longrightarrow>
     parse_line st l = st\<lparr>p_forRecipient := recipient_of (toLowerCase (trim g))\<rparr>"
  by (simp add: parse_line_def forMatch_not_from)

lemma saveSection_forRecipient: "p_forRecipient (saveSection st) = p_forRecipient st"
  by (simp add: saveSection_def Let_def split: section_name.splits)

lemma saveSection_fromAgent: "p_fromAgent (saveSection st) = p_fromAgent st"
  by (simp add: saveSection_def Let_def split: section_name.splits)

lemma parse_line_not_for:
  "forMatch l = None \<Longrightarrow> p_forRecipient (parse_line st l) = p_forRecipient st"
  by (simp add: parse_line_def saveSection_forRecipient split: option.splits)

lemma foldl_not_for:
  "\<forall>l\<in>set ls. forMatch l = None \<Longrightarrow> p_forRecipient (foldl parse_line st ls) = p_forRecipient st"
  by (induction ls arbitrary: st) (simp_all add: parse_line_not_for)

lemma no_question_section:
  assumes "\<forall>l\<in>set ls. header_section l \<noteq> Some Question_section"
    and "p_question st = []" and "currentSection st \<noteq> Question_section"
  shows "p_question (foldl parse_line st ls) = [] \<and> currentSection (foldl parse_line st ls) \<noteq> Question_section"
  using assms
proof (induction ls arbitrary: st)
  case Nil
  then show ?case by simp
next
  case (Cons l ls)
  have "p_question (parse_line st l) = [] \<and> currentSection (parse_line st l) \<noteq> Question_section"
    using Cons.prems
    by (auto simp: parse_line_def header_section_def saveSection_def Let_def
        split: option.splits section_name.splits if_splits)
  with Cons show ?case by simp
qed


lemma trim_all_space:
  assumes "\<forall>c\<in>set s. is_space c"
  shows "trim s = []"
proof -
  from assms have d: "dropWhile is_space s = []" by simp
  show ?thesis unfolding trim_def d by simp
qed

lemma is_blank_iff: "is_blank l = (\<forall>c\<in>set l. is_space c)"
proof
  assume "is_blank l"
  then have "\<forall>c\<in>set (dropWhile is_space l). is_space c"
    by (simp add: is_blank_def trim_def dropWhile_eq_Nil_conv)
  then have "dropWhile is_space l = []"
    by (metis hd_dropWhile list.set_sel(1))
  then show "\<forall>c\<in>set l. is_space c"
    by (simp add: dropWhile_eq_Nil_conv)
next
  assume "\<forall>c\<in>set l. is_space c"
  then show "is_blank l"
    by (simp add: is_blank_def trim_all_space)
qed

lemma NL_space: "is_space NL"
  by (simp add: is_space_def)

lemma join_blank:
  "\<forall>l\<in>set ls. is_blank l \<Longrightarrow> \<forall>c\<in>set (join_with [NL] ls). is_space c"
  by (induction "[NL]" ls rule: join_with.induct) (auto simp: is_blank_iff NL_space)

lemma blank_sections:
  assumes "\<forall>l\<in>set ls. is_content_line l \<longrightarrow> is_blank l"
    and "\<forall>l\<in>set (sectionContent st). is_blank l" and "p_question st = []"
  shows "(\<forall>l\<in>set (sectionContent (foldl parse_line st ls)). is_blank l)
    \<and> p_question (foldl parse_line st ls) = []"
  using assms
proof (induction ls arbitrary: st)
  case Nil
  then show ?case by simp
next
  case (Cons l ls)
  have t: "trim (join_with [NL] (sectionContent st)) = []"
    using Cons.prems(2) by (intro trim_all_space join_blank)
  have "(\<forall>x\<in>set (sectionContent (parse_line st l)). is_blank x) \<and> p_question (parse_line st l) = []"
  proof (cases "is_content_line l")
    case True
    with Cons.prems show ?thesis
      by (simp add: parse_line_content)
  next
    case False
    with Cons.prems t show ?thesis
      by (auto simp: parse_line_def is_content_line_def saveSection_def Let_def
          split: option.splits section_name.splits)
  qed
  moreover from Cons.prems(1) have "\<forall>x\<in>set ls. is_content_line x \<longrightarrow> is_blank x"
    by simp
  ultimately have "(\<forall>x\<in>set (sectionContent (foldl parse_line (parse_line st l) ls)). is_blank x)
    \<and> p_question (foldl parse_line (parse_line st l) ls) = []"
    using Cons.IH [of "parse_line st l"] by blast
  then show ?case by simp
qed

lemma question_saved:
  "p_question (saveSection st) =
     (if currentSection st = Question_section then trim (join_with [NL] (sectionContent st))
      else p_question st)"
  by (simp add: saveSection_def Let_def split: section_name.splits)

lemma parse_content_simps:
  "fromAgent (parse_content p c) = p_fromAgent (foldl parse_line parse_init (split_on NL c))"
  "forRecipient (parse_content p c) = p_forRecipient (foldl parse_line parse_init (split_on NL c))"
  "q_context (parse_content p c) = p_context (saveSection (foldl parse_line parse_init (split_on NL c)))"
  "question (parse_content p c) = p_question (saveSection (foldl parse_line parse_init (split_on NL c)))"
  "options (parse_content p c) = p_options (saveSection (foldl parse_line parse_init (split_on NL c)))"
  by (simp_all add: parse_content_def Let_def saveSection_fromAgent saveSection_forRecipient)

lemma parse_existing_file:
  assumes "existsSync fs path"
  shows "\<exists>c. readFileSync fs path = Some c \<and> parseQuestionFile fs path = Inr (parse_content path c)"
  using assms by (auto simp: existsSync_def readFileSync_def parseQuestionFile_def)

lemma no_for_line:
  assumes "\<forall>l\<in>set (split_on NL c). forMatch l = None"
  shows "forRecipient (parse_content p c) = User"
  using foldl_not_for [OF assms, of parse_init]
  by (simp add: parse_content_simps parse_init_def)

lemma last_for_line:
  assumes "split_on NL c = pre @ [l] @ post" and "forMatch l = Some g"
    and "\<forall>x\<in>set post. forMatch x = None"
  shows "forRecipient (parse_content p c) = recipient_of (toLowerCase (trim g))"
  using foldl_not_for [OF assms(3), of "parse_line (foldl parse_line parse_init pre) l"] assms(1,2)
  by (simp add: parse_content_simps parse_line_for)

lemma no_question_header:
  assumes "\<forall>l\<in>set (split_on NL c). header_section l \<noteq> Some Question_section"
  shows "question (parse_content p c) = []"
  using no_question_section [OF assms, of parse_init]
  by (simp add: parse_content_simps question_saved parse_init_def)

lemma blank_bodies:
  assumes "\<forall>l\<in>set (split_on NL c). is_content_line l \<longrightarrow> is_blank l"
  shows "question (parse_content p c) = []"
proof -
  let ?st = "foldl parse_line parse_init (split_on NL c)"
  have "(\<forall>l\<in>set (sectionContent ?st). is_blank l) \<and> p_question ?st = []"
    using assms by (intro blank_sections) (simp_all add: parse_init_def)
  then have "p_question ?st = []" and "trim (join_with [NL] (sectionContent ?st)) = []"
    by (auto intro!: trim_all_space join_blank [rule_format])
  then show ?thesis
    by (simp add: parse_content_simps question_saved)
qed

lemma recipient_of_other: "r \<noteq> ''po'' \<Longrightarrow> r \<noteq> ''tech_lead'' \<Longrightarrow> recipient_of r = User"
  by (simp add: recipient_of_def)

lemma parse_line_sections:
  assumes "p_context st = p_context st'" and "p_question st = p_question st'"
    and "p_options st = p_options st'" and "currentSection st = currentSection st'"
    and "sectionContent st = sectionContent st'"
  shows "p_context (parse_line st l) = p_context (parse_line st' l)
    \<and> p_question (parse_line st l) = p_question (parse_line st' l)
    \<and> p_options (parse_line st l) = p_options (parse_line st' l)
    \<and> currentSection (parse_line st l) = currentSection (parse_line st' l)
    \<and> sectionContent (parse_line st l) = sectionContent (parse_line st' l)"
  using assms
  by (simp add: parse_line_def saveSection_def Let_def split: option.splits section_name.splits)

lemma foldl_sections:
  assumes "p_context st = p_context st'" and "p_question st = p_question st'"
    and "p_options st = p_options st'" and "currentSection st = currentSection st'"
    and "sectionContent st = sectionContent st'"
  shows "p_context (foldl parse_line st ls) = p_context (foldl parse_line st' ls)
    \<and> p_question (foldl parse_line st ls) = p_question (foldl parse_line st' ls)
    \<and> p_options (foldl parse_line st ls) = p_options (foldl parse_line st' ls)
    \<and> currentSection (foldl parse_line st ls) = currentSection (foldl parse_line st' ls)
    \<and> sectionContent (foldl parse_line st ls) = sectionContent (foldl parse_line st' ls)"
  using assms
proof (induction ls arbitrary: st st')
  case Nil
  then show ?case by simp
next
  case (Cons l ls)
  from parse_line_sections [OF Cons.prems, of l]
  have "p_context (parse_line st l) = p_context (parse_line st' l)"
    "p_question (parse_line st l) = p_question (parse_line st' l)"
    "p_options (parse_line st l) = p_options (parse_line st' l)"
    "currentSection (parse_line st l) = currentSection (parse_line st' l)"
    "sectionContent (parse_line st l) = sectionContent (parse_line st' l)"
    by simp_all
  from Cons.IH [OF this] show ?case
    by simp
qed

lemma saveSection_sections:
  assumes "p_context st = p_context st'" and "p_question st = p_question st'"
    and "p_options st = p_options st'" and "currentSection st = currentSection st'"
    and "sectionContent st = sectionContent st'"
  shows "p_context (saveSection st) = p_context (saveSection st')
    \<and> p_question (saveSection st) = p_question (saveSection st')
    \<and> p_options (saveSection st) = p_options (saveSection st')"
  using assms by (simp add: saveSection_def Let_def split: section_name.splits)

lemma parse_line_no_header:
  assumes "header_section l = None"
  shows "p_context (parse_line st l) = p_context st \<and> p_question (parse_line st l) = p_question st
    \<and> p_options (parse_line st l) = p_options st \<and> currentSection (parse_line st l) = currentSection st
    \<and> sectionContent (parse_line st l)
        = (if is_content_line l \<and> currentSection st \<noteq> No_section then sectionContent st @ [l]
           else sectionContent st)"
  using assms
  by (auto simp: parse_line_def header_section_def is_content_line_def split: option.splits if_splits)

lemma unknown_body_sections:
  assumes "currentSection st = No_section" and "\<forall>l\<in>set body. header_section l = None"
  shows "p_context (foldl parse_line st body) = p_context st
    \<and> p_question (foldl parse_line st body) = p_question st
    \<and> p_options (foldl parse_line st body) = p_options st
    \<and> currentSection (foldl parse_line st body) = No_section
    \<and> sectionContent (foldl parse_line st body) = sectionContent st"
  using assms
proof (induction body arbitrary: st)
  case Nil
  then show ?case by simp
next
  case (Cons l body)
  from Cons.prems have "header_section l = None" by simp
  from parse_line_no_header [OF this, of st] Cons.prems(1)
  have l: "p_context (parse_line st l) = p_context st" "p_question (parse_line st l) = p_question st"
    "p_options (parse_line st l) = p_options st" "currentSection (parse_line st l) = No_section"
    "sectionContent (parse_line st l) = sectionContent st"
    by simp_all
  from Cons.IH [OF l(4)] Cons.prems(2) l show ?case
    by simp
qed

lemma unknown_body_content:
  assumes "currentSection st = No_section" and "\<forall>l\<in>set body. header_section l = None"
  shows "foldl parse_line st body = foldl parse_line st (filter (\<lambda>l. \<not> is_content_line l) body)"
  using assms
proof (induction body arbitrary: st)
  case Nil
  then show ?case by simp
next
  case (Cons l body)
  show ?case
  proof (cases "is_content_line l")
    case True
    with Cons.prems(1) have "parse_line st l = st"
      by (simp add: parse_line_content)
    with Cons True show ?thesis by simp
  next
    case False
    from Cons.prems have "header_section l = None" by simp
    from parse_line_no_header [OF this, of st] Cons.prems(1)
    have "currentSection (parse_line st l) = No_section" by simp
    from Cons.IH [OF this] Cons.prems(2) False show ?thesis by simp
  qed
qed

lemma unknown_section_body:
  assumes hdr: "header_section hdr = Some No_section"
    and body: "\<forall>l\<in>set body. header_section l = None"
    and c: "split_on NL c = pre @ [hdr] @ body @ post"
    and c': "split_on NL c' = pre @ [hdr] @ post"
    and c'': "split_on NL c'' = pre @ [hdr] @ filter (\<lambda>l. \<not> is_content_line l) body @ post"
  shows "q_context (parse_content p c) = q_context (parse_content p c')
    \<and> question (parse_content p c) = question (parse_content p c')
    \<and> options (parse_content p c) = options (parse_content p c')
    \<and> fromAgent (parse_content p c) = fromAgent (parse_content p c'')
    \<and> forRecipient (parse_content p c) = forRecipient (parse_content p c'')"
proof -
  let ?s1 = "parse_line (foldl parse_line parse_init pre) hdr"
  let ?s2 = "foldl parse_line ?s1 body"
  have s1: "currentSection ?s1 = No_section"
    using hdr by (simp add: parse_line_header)
  from unknown_body_sections [OF s1 body]
  have "p_context ?s2 = p_context ?s1" "p_question ?s2 = p_question ?s1"
    "p_options ?s2 = p_options ?s1" "currentSection ?s2 = currentSection ?s1"
    "sectionContent ?s2 = sectionContent ?s1"
    using s1 by simp_all
  from saveSection_sections [OF foldl_sections [OF this, of post, THEN conjunct1]
      foldl_sections [OF this, of post, THEN conjunct2, THEN conjunct1]
      foldl_sections [OF this, of post, THEN conjunct2, THEN conjunct2, THEN conjunct1]
      foldl_sections [OF this, of post, THEN conjunct2, THEN conjunct2, THEN conjunct2, THEN conjunct1]
      foldl_sections [OF this, of post, THEN conjunct2, THEN conjunct2, THEN conjunct2, THEN conjunct2]]
  have sections: "q_context (parse_content p c) = q_context (parse_content p c')
    \<and> question (parse_content p c) = question (parse_content p c')
    \<and> options (parse_content p c) = options (parse_content p c')"
    by (simp add: parse_content_simps c c')
  from unknown_body_content [OF s1 body]
  have "foldl parse_line parse_init (split_on NL c) = foldl parse_line parse_init (split_on NL c'')"
    by (simp add: c c'')
  then have "fromAgent (parse_content p c) = fromAgent (parse_content p c'')
    \<and> forRecipient (parse_content p c) = forRecipient (parse_content p c'')"
    by (simp add: parse_content_simps)
  with sections show ?thesis by simp
qed

lemma question_kept:
  assumes "\<forall>l\<in>set ls. header_section l \<noteq> Some Question_section"
    and "currentSection st \<noteq> Question_section"
  shows "p_question (foldl parse_line st ls) = p_question st
    \<and> currentSection (foldl parse_line st ls) \<noteq> Question_section"
  using assms
proof (induction ls arbitrary: st)
  case Nil
  then show ?case by simp
next
  case (Cons l ls)
  have "p_question (parse_line st l) = p_question st
      \<and> currentSection (parse_line st l) \<noteq> Question_section"
    using Cons.prems
    by (auto simp: parse_line_def header_section_def saveSection_def Let_def
        split: option.splits section_name.splits if_splits)
  with Cons show ?case by simp
qed

lemma question_body:
  assumes "currentSection st = Question_section" and "\<forall>l\<in>set body. header_section l = None"
  shows "currentSection (foldl parse_line st body) = Question_section
    \<and> sectionContent (foldl parse_line st body) = sectionContent st @ filter is_content_line body"
  using assms
proof (induction body arbitrary: st)
  case Nil
  then show ?case by simp
next
  case (Cons l body)
  from Cons.prems have "header_section l = None" by simp
  from parse_line_no_header [OF this, of st] Cons.prems(1)
  have l: "currentSection (parse_line st l) = Question_section"
    "sectionContent (parse_line st l) = sectionContent st @ (if is_content_line l then [l] else [])"
    by simp_all
  from Cons.IH [OF l(1)] Cons.prems(2) l(2) show ?case
    by simp
qed

lemma saveSection_content: "sectionContent (saveSection st) = []"
  by (simp add: saveSection_def Let_def split: section_name.splits)

lemma last_question_section:
  assumes c: "split_on NL c = pre @ [hdr] @ body @ post"
    and hdr: "header_section hdr = Some Question_section"
    and body: "\<forall>l\<in>set body. header_section l = None"
    and post_hd: "post \<noteq> [] \<longrightarrow> header_section (hd post) \<noteq> None"
    and post: "\<forall>l\<in>set post. header_section l \<noteq> Some Question_section"
  shows "question (parse_content p c) = trim (join_with [NL] (filter is_content_line body))"
proof -
  let ?s1 = "parse_line (foldl parse_line parse_init pre) hdr"
  let ?s2 = "foldl parse_line ?s1 body"
  let ?q = "trim (join_with [NL] (filter is_content_line body))"
  have s1: "currentSection ?s1 = Question_section" "sectionContent ?s1 = []"
    using hdr by (simp_all add: parse_line_header saveSection_content)
  from question_body [OF s1(1) body] s1(2)
  have s2: "currentSection ?s2 = Question_section" "sectionContent ?s2 = filter is_content_line body"
    by simp_all
  have "p_question (saveSection (foldl parse_line ?s2 post)) = ?q"
  proof (cases post)
    case Nil
    with s2 show ?thesis by (simp add: question_saved)
  next
    case (Cons h post')
    with post_hd post obtain sec where sec: "header_section h = Some sec" "sec \<noteq> Question_section"
      by auto
    let ?s3 = "parse_line ?s2 h"
    have s3: "p_question ?s3 = ?q" "currentSection ?s3 \<noteq> Question_section"
      using sec s2 by (simp_all add: parse_line_header question_saved)
    from post Cons have "\<forall>l\<in>set post'. header_section l \<noteq> Some Question_section" by simp
    from question_kept [OF this s3(2)] s3(1) Cons show ?thesis
      by (simp add: question_saved)
  qed
  then show ?thesis
    by (simp add: parse_content_simps c)
qed

lemma question_section_exists:
  assumes "\<exists>l\<in>set ls. header_section l = Some Question_section"
  shows "\<exists>pre hdr body post. ls = pre @ [hdr] @ body @ post
    \<and> header_section hdr = Some Question_section
    \<and> (\<forall>l\<in>set body. header_section l = None)
    \<and> (post \<noteq> [] \<longrightarrow> header_section (hd post) \<noteq> None)
    \<and> (\<forall>l\<in>set post. header_section l \<noteq> Some Question_section)"
proof -
  from split_list_last_prop [OF assms] obtain pre hdr rest where r:
    "ls = pre @ hdr # rest" "header_section hdr = Some Question_section"
    "\<forall>l\<in>set rest. header_section l \<noteq> Some Question_section"
    by blast
  let ?body = "takeWhile (\<lambda>l. header_section l = None) rest"
  let ?post = "dropWhile (\<lambda>l. header_section l = None) rest"
  have "ls = pre @ [hdr] @ ?body @ ?post"
    using r(1) by simp
  moreover have "\<forall>l\<in>set ?body. header_section l = None"
    by (auto dest: set_takeWhileD)
  moreover have "?post \<noteq> [] \<longrightarrow> header_section (hd ?post) \<noteq> None"
    using hd_dropWhile [of "\<lambda>l. header_section l = None" rest] by blast
  moreover have "\<forall>l\<in>set ?post. header_section l \<noteq> Some Question_section"
    using r(3) by (auto dest: set_dropWhileD)
  ultimately show ?thesis
    using r(2) by blast
qed

lemma blank_question:
  assumes "\<forall>l\<in>set body. is_content_line l \<longrightarrow> is_blank l"
  shows "trim (join_with [NL] (filter is_content_line body)) = []"
  using assms by (intro trim_all_space join_blank) simp

text \<open>
  Claim C6, as amended. For every existing file, whatever its content, \<open>parseQuestionFile\<close>
  returns a parsed question and raises nothing. The body of an unknown section, that is
  the lines from its header to the next section header, has no effect on the context,
  the question and the options; its content lines have no effect on any field, but a
  \<open>Question from:\<close> or \<open>For:\<close> line in it is read as anywhere else in the file. The
  recipient is \<open>user\<close> when no line gives a \<open>For:\<close> value, and otherwise it is decided by
  the last such line, whose value is read as \<open>user\<close> unless it is \<open>po\<close> or \<open>tech_lead\<close>.
  The question is the empty string when the file has no question section; otherwise the
  file has a last question section, and the question is the trimmed text of the content
  lines of its body, hence the empty string when these lines are absent or blank.
\<close>

theorem C6_parse_malformed:
  "(existsSync fs path \<longrightarrow>
      (\<exists>c. readFileSync fs path = Some c \<and> parseQuestionFile fs path = Inr (parse_content path c)))
   \<and> (header_section hdr = Some No_section \<and> (\<forall>l\<in>set body. header_section l = None)
        \<and> split_on NL c1 = pre @ [hdr] @ body @ post \<and> split_on NL c1' = pre @ [hdr] @ post
        \<and> split_on NL c1'' = pre @ [hdr] @ filter (\<lambda>l. \<not> is_content_line l) body @ post \<longrightarrow>
        q_context (parse_content p c1) = q_context (parse_content p c1')
        \<and> question (parse_content p c1) = question (parse_content p c1')
        \<and> options (parse_content p c1) = options (parse_content p c1')
        \<and> fromAgent (parse_content p c1) = fromAgent (parse_content p c1'')
        \<and> forRecipient (parse_content p c1) = forRecipient (parse_content p c1''))
   \<and> ((\<forall>l\<in>set (split_on NL c2). forMatch l = None) \<longrightarrow> forRecipient (parse_content p c2) = User)
   \<and> (split_on NL c3 = pre3 @ [l3] @ post3 \<and> forMatch l3 = Some g \<and> (\<forall>x\<in>set post3. forMatch x = None) \<longrightarrow>
        forRecipient (parse_content p c3) = recipient_of (toLowerCase (trim g)))
   \<and> (r \<noteq> ''po'' \<and> r \<noteq> ''tech_lead'' \<longrightarrow> recipient_of r = User)
   \<and> ((\<forall>l\<in>set (split_on NL c4). header_section l \<noteq> Some Question_section) \<longrightarrow>
        question (parse_content p c4) = [])
   \<and> ((\<forall>l\<in>set (split_on NL c5). is_content_line l \<longrightarrow> is_blank l) \<longrightarrow>
        question (parse_content p c5) = [])
   \<and> (split_on NL c6 = pre6 @ [hdr6] @ body6 @ post6
        \<and> header_section hdr6 = Some Question_section
        \<and> (\<forall>l\<in>set body6. header_section l = None)
        \<and> (post6 \<noteq> [] \<longrightarrow> header_section (hd post6) \<noteq> None)
        \<and> (\<forall>l\<in>set post6. header_section l \<noteq> Some Question_section) \<longrightarrow>
        question (parse_content p c6) = trim (join_with [NL] (filter is_content_line body6))
        \<and> ((\<forall>l\<in>set body6. is_content_line l \<longrightarrow> is_blank l) \<longrightarrow> question (parse_content p c6) = []))
   \<and> ((\<exists>l\<in>set (split_on NL c7). header_section l = Some Question_section) \<longrightarrow>
        (\<exists>pre7 hdr7 body7 post7.
            split_on NL c7 = pre7 @ [hdr7] @ body7 @ post7
            \<and> header_section hdr7 = Some Question_section
            \<and> (\<forall>l\<in>set body7. header_section l = None)
            \<and> (post7 \<noteq> [] \<longrightarrow> header_section (hd post7) \<noteq> None)
            \<and> (\<forall>l\<in>set post7. header_section l \<noteq> Some Question_section)))"
proof -
  have a: "existsSync fs path \<longrightarrow>
      (\<exists>c. readFileSync fs path = Some c \<and> parseQuestionFile fs path = Inr (parse_content path c))"
    using parse_existing_file [of fs path] by blast
  have b: "header_section hdr = Some No_section \<and> (\<forall>l\<in>set body. header_section l = None)
        \<and> split_on NL c1 = pre @ [hdr] @ body @ post \<and> split_on NL c1' = pre @ [hdr] @ post
        \<and> split_on NL c1'' = pre @ [hdr] @ filter (\<lambda>l. \<not> is_content_line l) body @ post \<longrightarrow>
        q_context (parse_content p c1) = q_context (parse_content p c1')
        \<and> question (parse_content p c1) = question (parse_content p c1')
        \<and> options (parse_content p c1) = options (parse_content p c1')
        \<and> fromAgent (parse_content p c1) = fromAgent (parse_content p c1'')
        \<and> forRecipient (parse_content p c1) = forRecipient (parse_content p c1'')"
    using unknown_section_body [of hdr body c1 pre post c1' c1'' p] by blast
  have c: "(\<forall>l\<in>set (split_on NL c2). forMatch l = None) \<longrightarrow> forRecipient (parse_content p c2) = User"
    using no_for_line [of c2 p] by blast
  have d: "split_on NL c3 = pre3 @ [l3] @ post3 \<and> forMatch l3 = Some g
        \<and> (\<forall>x\<in>set post3. forMatch x = None) \<longrightarrow>
        forRecipient (parse_content p c3) = recipient_of (toLowerCase (trim g))"
    using last_for_line [of c3 pre3 l3 post3 g p] by blast
  have e: "r \<noteq> ''po'' \<and> r \<noteq> ''tech_lead'' \<longrightarrow> recipient_of r = User"
    using recipient_of_other [of r] by blast
  have f: "(\<forall>l\<in>set (split_on NL c4). header_section l \<noteq> Some Question_section) \<longrightarrow>
        question (parse_content p c4) = []"
    using no_question_header [of c4 p] by blast
  have g: "(\<forall>l\<in>set (split_on NL c5). is_content_line l \<longrightarrow> is_blank l) \<longrightarrow>
        question (parse_content p c5) = []"
    using blank_bodies [of c5 p] by blast
  have h: "split_on NL c6 = pre6 @ [hdr6] @ body6 @ post6
        \<and> header_section hdr6 = Some Question_section
        \<and> (\<forall>l\<in>set body6. header_section l = None)
        \<and> (post6 \<noteq> [] \<longrightarrow> header_section (hd post6) \<noteq> None)
        \<and> (\<forall>l\<in>set post6. header_section l \<noteq> Some Question_section) \<longrightarrow>
        question (parse_content p c6) = trim (join_with [NL] (filter is_content_line body6))
        \<and> ((\<forall>l\<in>set body6. is_content_line l \<longrightarrow> is_blank l) \<longrightarrow> question (parse_content p c6) = [])"
    using last_question_section [of c6 pre6 hdr6 body6 post6 p] blank_question [of body6]
    by simp
  have i: "(\<exists>l\<in>set (split_on NL c7). header_section l = Some Question_section) \<longrightarrow>
        (\<exists>pre7 hdr7 body7 post7.
            split_on NL c7 = pre7 @ [hdr7] @ body7 @ post7
            \<and> header_section hdr7 = Some Question_section
            \<and> (\<forall>l\<in>set body7. header_section l = None)
            \<and> (post7 \<noteq> [] \<longrightarrow> header_section (hd post7) \<noteq> None)
            \<and> (\<forall>l\<in>set post7. header_section l \<noteq> Some Question_section))"
    using question_section_exists [of "split_on NL c7"] by blast
  from a b c d e f g h i show ?thesis
    by (intro conjI)
qed

theorem C6_parse_malformed_witness:
  "parseQuestionFile [(''q.md'', \<lparr>content = example_malformed, mtimeMs = 1\<rparr>)] ''q.md''
     = Inr (parse_content ''q.md'' example_malformed)
   \<and> q_context (parse_content ''q.md'' example_notes) = q_context (parse_content ''q.md'' example_notes_cut)
   \<and> question (parse_content ''q.md'' example_notes) = question (parse_content ''q.md'' example_notes_cut)
   \<and> options (parse_content ''q.md'' example_notes) = options (parse_content ''q.md'' example_notes_cut)
   \<and> fromAgent (parse_content ''q.md'' example_notes) = fromAgent (parse_content ''q.md'' example_notes_from)
   \<and> forRecipient (parse_content ''q.md'' example_notes)
       = forRecipient (parse_content ''q.md'' example_notes_from)
   \<and> forRecipient (parse_content ''q.md'' example_no_for) = User
   \<and> forRecipient (parse_content ''q.md'' example_malformed) = User
   \<and> question (parse_content ''q.md'' example_malformed) = []
   \<and> question (parse_content ''q.md'' example_no_body) = []
   \<and> question (parse_content ''q.md'' example_empty_question) = []
   \<and> (\<exists>pre hdr body post.
         split_on NL example_empty_question = pre @ [hdr] @ body @ post
         \<and> header_section hdr = Some Question_section)"
proof -
  have a: "existsSync [(''q.md'', \<lparr>content = example_malformed, mtimeMs = 1\<rparr>)] ''q.md''"
    by (simp add: existsSync_def)
  have a': "readFileSync [(''q.md'', \<lparr>content = example_malformed, mtimeMs = 1\<rparr>)] ''q.md''
      = Some example_malformed"
    by (simp add: readFileSync_def)
  have b1: "header_section ''## Notes'' = Some No_section"
    by code_simp
  have b2: "\<forall>l\<in>set [''secret'', ''# Question from: mallory'', ''more'']. header_section l = None"
    by code_simp
  have b3: "split_on NL example_notes
      = [''# Question from: dev''] @ [''## Notes'']
        @ [''secret'', ''# Question from: mallory'', ''more''] @ [''## Context'', ''hello'']"
    by code_simp
  have b4: "split_on NL example_notes_cut
      = [''# Question from: dev''] @ [''## Notes''] @ [''## Context'', ''hello'']"
    by code_simp
  have b5: "split_on NL example_notes_from
      = [''# Question from: dev''] @ [''## Notes'']
        @ filter (\<lambda>l. \<not> is_content_line l) [''secret'', ''# Question from: mallory'', ''more'']
        @ [''## Context'', ''hello'']"
    by code_simp
  have c1: "\<forall>l\<in>set (split_on NL example_no_for). forMatch l = None"
    by code_simp
  have c2: "split_on NL example_malformed
      = [''# Question from: dev''] @ [''## For: bogus_value'']
        @ [''## Notes'', ''secret'', ''## Context'', ''hello'', []]"
    by code_simp
  have c3: "forMatch ''## For: bogus_value'' = Some ''bogus_value''"
    by code_simp
  have c4: "\<forall>x\<in>set [''## Notes'', ''secret'', ''## Context'', ''hello'', []]. forMatch x = None"
    by code_simp
  have c5: "toLowerCase (trim ''bogus_value'') = ''bogus_value''"
    by code_simp
  have r: "''bogus_value'' \<noteq> ''po'' \<and> ''bogus_value'' \<noteq> ''tech_lead''"
    by simp
  have d1: "\<forall>l\<in>set (split_on NL example_malformed). header_section l \<noteq> Some Question_section"
    by code_simp
  have d2: "\<forall>l\<in>set (split_on NL example_no_body). is_content_line l \<longrightarrow> is_blank l"
    by code_simp
  have e1: "split_on NL example_empty_question
      = [''# Question from: dev'', ''## Context'', ''hello''] @ [''## Question''] @ [[]]
        @ [''## Options'', ''yes'']"
    by code_simp
  have e2: "header_section ''## Question'' = Some Question_section"
    by code_simp
  have e3: "\<forall>l\<in>set [[]]. header_section l = None"
    by code_simp
  have e4: "[''## Options'', ''yes''] \<noteq> [] \<longrightarrow> header_section (hd [''## Options'', ''yes'']) \<noteq> None"
    by code_simp
  have e5: "\<forall>l\<in>set [''## Options'', ''yes'']. header_section l \<noteq> Some Question_section"
    by code_simp
  have e6: "\<forall>l\<in>set [[]]. is_content_line l \<longrightarrow> is_blank l"
    by code_simp
  have e7: "\<exists>l\<in>set (split_on NL example_empty_question). header_section l = Some Question_section"
    by code_simp
  note t = C6_parse_malformed
    [of "[(''q.md'', \<lparr>content = example_malformed, mtimeMs = 1\<rparr>)]" "''q.md''"
        "''## Notes''" "[''secret'', ''# Question from: mallory'', ''more'']" example_notes
        "[''# Question from: dev'']" "[''## Context'', ''hello'']"
        example_notes_cut example_notes_from "''q.md''" example_no_for example_malformed
        "[''# Question from: dev'']" "''## For: bogus_value''"
        "[''## Notes'', ''secret'', ''## Context'', ''hello'', []]" "''bogus_value''"
        "''bogus_value''" example_malformed example_no_body
        example_empty_question "[''# Question from: dev'', ''## Context'', ''hello'']"
        "''## Question''" "[[]]" "[''## Options'', ''yes'']" example_empty_question]
  note t1 = t [THEN conjunct1] and r1 = t [THEN conjunct2]
  note t2 = r1 [THEN conjunct1] and r2 = r1 [THEN conjunct2]
  note t3 = r2 [THEN conjunct1] and r3 = r2 [THEN conjunct2]
  note t4 = r3 [THEN conjunct1] and r4 = r3 [THEN conjunct2]
  note t5 = r4 [THEN conjunct1] and r5 = r4 [THEN conjunct2]
  note t6 = r5 [THEN conjunct1] and r6 = r5 [THEN conjunct2]
  note t7 = r6 [THEN conjunct1] and r7 = r6 [THEN conjunct2]
  note t8 = r7 [THEN conjunct1] and t9 = r7 [THEN conjunct2]
  have parsed: "parseQuestionFile [(''q.md'', \<lparr>content = example_malformed, mtimeMs = 1\<rparr>)] ''q.md''
      = Inr (parse_content ''q.md'' example_malformed)"
    using mp [OF t1 a] a' by auto
  have sect: "q_context (parse_content ''q.md'' example_notes) = q_context (parse_content ''q.md'' example_notes_cut)
      \<and> question (parse_content ''q.md'' example_notes) = question (parse_content ''q.md'' example_notes_cut)
      \<and> options (parse_content ''q.md'' example_notes) = options (parse_content ''q.md'' example_notes_cut)
      \<and> fromAgent (parse_content ''q.md'' example_notes) = fromAgent (parse_content ''q.md'' example_notes_from)
      \<and> forRecipient (parse_content ''q.md'' example_notes)
          = forRecipient (parse_content ''q.md'' example_notes_from)"
    by (rule mp [OF t2]) (intro conjI b1 b2 b3 b4 b5)
  have nofor: "forRecipient (parse_content ''q.md'' example_no_for) = User"
    by (rule mp [OF t3 c1])
  have "forRecipient (parse_content ''q.md'' example_malformed) = recipient_of (toLowerCase (trim ''bogus_value''))"
    by (rule mp [OF t4]) (intro conjI c2 c3 c4)
  moreover have "recipient_of ''bogus_value'' = User"
    by (rule mp [OF t5 r])
  ultimately have bogus: "forRecipient (parse_content ''q.md'' example_malformed) = User"
    by (simp only: c5)
  have noq: "question (parse_content ''q.md'' example_malformed) = []"
    by (rule mp [OF t6 d1])
  have nobody: "question (parse_content ''q.md'' example_no_body) = []"
    by (rule mp [OF t7 d2])
  have "question (parse_content ''q.md'' example_empty_question) = trim (join_with [NL] (filter is_content_line [[]]))
      \<and> ((\<forall>l\<in>set [[]]. is_content_line l \<longrightarrow> is_blank l) \<longrightarrow>
          question (parse_content ''q.md'' example_empty_question) = [])"
    by (rule mp [OF t8]) (intro conjI e1 e2 e3 e4 e5)
  then have empty: "question (parse_content ''q.md'' example_empty_question) = []"
    using e6 by (elim conjE impE)
  have ex: "\<exists>pre hdr body post.
      split_on NL example_empty_question = pre @ [hdr] @ body @ post
      \<and> header_section hdr = Some Question_section"
    using mp [OF t9 e7] by (elim exE conjE) (intro exI conjI)
  from parsed sect nofor bogus noq nobody empty ex show ?thesis
    by (intro conjI) (elim conjE, assumption)+
qed

theorem C6_counterexample:
  "header_section ''## Notes'' = Some No_section
   \<and> split_on NL example_notes
       = [''# Question from: dev'', ''## Notes'', ''secret'', ''# Question from: mallory'', ''more'',
          ''## Context'', ''hello'']
   \<and> split_on NL example_notes_cut = [''# Question from: dev'', ''## Notes'', ''## Context'', ''hello'']
   \<and> fromAgent (parse_content ''q.md'' example_notes) = ''mallory''
   \<and> fromAgent (parse_content ''q.md'' example_notes_cut) = ''dev''"
  by code_simp

section \<open>Writing a question and reading it back\<close>

lemma is_trimmed_trim: "is_trimmed s \<Longrightarrow> trim s = s"
proof (cases "s = []")
  case True
  then show ?thesis by (simp add: trim_def)
next
  case False
  assume "is_trimmed s"
  with False have h: "\<not> is_space (hd s)" and l: "\<not> is_space (last s)"
    by (simp_all add: is_trimmed_def)
  from False h have d: "dropWhile is_space s = s"
    by (simp add: dropWhile_eq_self_iff)
  from False l have "dropWhile is_space (rev s) = rev s"
    by (simp add: dropWhile_eq_self_iff hd_rev)
  with d show ?thesis
    by (simp add: trim_def)
qed

lemma trim_Cons_space: "is_space c \<Longrightarrow> trim (c # s) = trim s"
  by (simp add: trim_def)

lemma trim_snoc_space:
  assumes "is_space c"
  shows "trim (s @ [c]) = trim s"
proof (cases "\<forall>x\<in>set s. is_space x")
  case True
  then have "trim s = []" by (rule trim_all_space)
  moreover from True assms have "\<forall>x\<in>set (s @ [c]). is_space x" by simp
  then have "trim (s @ [c]) = []" by (rule trim_all_space)
  ultimately show ?thesis by simp
next
  case False
  then have "dropWhile is_space (s @ [c]) = dropWhile is_space s @ [c]"
    by (simp add: dropWhile_append)
  with assms show ?thesis
    by (simp add: trim_def)
qed

lemma split_on_nonempty: "split_on sep s \<noteq> []"
  by (induction s) (auto split: list.splits)

lemma split_on_append: "split_on sep (a @ sep # b) = split_on sep a @ split_on sep b"
proof (induction a)
  case Nil
  show ?case by simp
next
  case (Cons c a)
  obtain l ls where "split_on sep a = l # ls"
    using split_on_nonempty [of sep a] by (cases "split_on sep a") auto
  with Cons show ?case by simp
qed

lemma split_on_no_sep: "sep \<notin> set s \<Longrightarrow> split_on sep s = [s]"
  by (induction s) auto

lemma join_split: "join_with [sep] (split_on sep s) = s"
proof (induction s)
  case Nil
  show ?case by simp
next
  case (Cons c s)
  obtain l ls where ls: "split_on sep s = l # ls"
    using split_on_nonempty [of sep s] by (cases "split_on sep s") auto
  with Cons have s: "s = join_with [sep] (l # ls)" by simp
  show ?case
  proof (cases "c = sep")
    case True
    with ls s show ?thesis by simp
  next
    case False
    with ls s show ?thesis by (cases ls) simp_all
  qed
qed

lemma join_Cons: "xs \<noteq> [] \<Longrightarrow> join_with sep (x # xs) = x @ sep @ join_with sep xs"
  by (cases xs) simp_all

lemma join_append:
  "xs \<noteq> [] \<Longrightarrow> ys \<noteq> [] \<Longrightarrow> join_with sep (xs @ ys) = join_with sep xs @ sep @ join_with sep ys"
proof (induction xs)
  case Nil
  then show ?case by simp
next
  case (Cons x xs)
  show ?case
  proof (cases "xs = []")
    case True
    with Cons.prems show ?thesis by (simp add: join_Cons)
  next
    case False
    with Cons show ?thesis by (simp add: join_Cons)
  qed
qed

lemma split_join_lines:
  "ls \<noteq> [] \<Longrightarrow> \<forall>l\<in>set ls. sep \<notin> set l \<Longrightarrow> split_on sep (join_with [sep] ls) = ls"
proof (induction ls)
  case Nil
  then show ?case by simp
next
  case (Cons l ls)
  show ?case
  proof (cases "ls = []")
    case True
    with Cons.prems show ?thesis by (simp add: split_on_no_sep)
  next
    case False
    with Cons show ?thesis
      by (simp add: join_Cons split_on_append split_on_no_sep)
  qed
qed

lemma join_block:
  "xs \<noteq> [] \<Longrightarrow> join_with [NL] ([] # xs @ [[]]) = NL # join_with [NL] xs @ [NL]"
  by (simp add: join_Cons join_append)

lemma trim_block:
  assumes "is_trimmed text"
  shows "trim (join_with [NL] ([] # split_on NL text @ [[]])) = text"
proof -
  have "join_with [NL] ([] # split_on NL text @ [[]]) = NL # text @ [NL]"
    by (simp add: join_block split_on_nonempty join_split)
  then show ?thesis
    using assms by (simp add: trim_Cons_space trim_snoc_space NL_space is_trimmed_trim)
qed


lemma hd_join: "xs \<noteq> [] \<Longrightarrow> hd xs \<noteq> [] \<Longrightarrow> hd (join_with sep xs) = hd (hd xs)"
  by (induction sep xs rule: join_with.induct) simp_all

lemma join_eq_Nil: "join_with sep xs = [] \<Longrightarrow> z \<in> set xs \<Longrightarrow> z = []"
  by (induction sep xs rule: join_with.induct) auto

lemma last_join: "xs \<noteq> [] \<Longrightarrow> last xs \<noteq> [] \<Longrightarrow> last (join_with sep xs) = last (last xs)"
proof (induction sep xs rule: join_with.induct)
  case (3 sep x y ys)
  have "last (y # ys) \<in> set (y # ys)"
    by (rule last_in_set) simp
  moreover from 3(3) have "last (y # ys) \<noteq> []"
    by simp
  ultimately have "join_with sep (y # ys) \<noteq> []"
    using join_eq_Nil [of sep "y # ys" "last (y # ys)"] by blast
  with 3 show ?case by (simp add: last_append)
qed simp_all

lemma trim_options_block:
  assumes "opts \<noteq> []" and "\<forall>x\<in>set opts. x \<noteq> [] \<and> is_trimmed x"
  shows "trim (join_with [NL] ([] # opts @ [[]])) = join_with [NL] opts"
proof -
  from assms have h: "hd opts \<noteq> []" "is_trimmed (hd opts)" and l: "last opts \<noteq> []" "is_trimmed (last opts)"
    by simp_all
  have "is_trimmed (join_with [NL] opts)"
    using assms(1) h l by (simp add: is_trimmed_def hd_join last_join)
  then show ?thesis
    using assms(1) by (simp add: join_block trim_Cons_space trim_snoc_space NL_space is_trimmed_trim)
qed

lemma options_lines:
  assumes "opts \<noteq> []" and "\<forall>x\<in>set opts. x \<noteq> [] \<and> is_trimmed x \<and> NL \<notin> set x"
  shows "filter (\<lambda>l. trim l \<noteq> []) (split_on NL (join_with [NL] opts)) = opts"
proof -
  from assms have "split_on NL (join_with [NL] opts) = opts"
    by (intro split_join_lines) auto
  moreover from assms(2) have "\<forall>x\<in>set opts. trim x \<noteq> []"
    by (auto simp: is_trimmed_trim)
  ultimately show ?thesis by simp
qed

lemma split_join_parts:
  "parts \<noteq> [] \<Longrightarrow> split_on sep (join_with [sep] parts) = concat (map (split_on sep) parts)"
proof (induction parts)
  case Nil
  then show ?case by simp
next
  case (Cons x parts)
  show ?case
  proof (cases "parts = []")
    case True
    then show ?thesis by simp
  next
    case False
    with Cons show ?thesis
      by (simp add: join_Cons split_on_append)
  qed
qed

lemma split_on_snoc: "split_on sep (s @ [sep]) = split_on sep s @ [[]]"
  using split_on_append [of sep s "[]"] by simp

lemma lower_question_from: "toLowerCase ''Question from:'' = ''question from:''"
  by code_simp

lemma capture_rest_value:
  assumes "is_trimmed v" and "\<forall>c\<in>set v. \<not> is_line_terminator c"
  shows "\<exists>g. capture_rest (CHR '' '' # v) = Some g \<and> trim g = v"
proof (cases "v = []")
  case True
  have "capture_rest '' '' = Some '' ''" by code_simp
  moreover have "trim '' '' = []" by code_simp
  ultimately show ?thesis using True by simp
next
  case False
  with assms(1) have "\<not> is_space (hd v)" by (simp add: is_trimmed_def)
  with False have "dropWhile is_space (CHR '' '' # v) = v"
    by (simp add: is_space_def dropWhile_eq_self_iff)
  with False assms show ?thesis
    by (simp add: capture_rest_def Let_def list_all_iff is_trimmed_trim)
qed

lemma fromMatch_written:
  assumes "is_trimmed v" and "\<forall>c\<in>set v. \<not> is_line_terminator c"
  shows "\<exists>g. fromMatch (''# Question from: '' @ v) = Some g \<and> trim g = v"
proof -
  have d: "dropWhile is_space ('' Question from: '' @ v) = ''Question from:'' @ CHR '' '' # v"
    by (simp add: is_space_def)
  have m: "match_ci ''question from:'' (''Question from:'' @ CHR '' '' # v) = Some (CHR '' '' # v)"
    unfolding match_ci_def using lower_question_from by simp
  have "fromMatch (''# Question from: '' @ v) = capture_rest (CHR '' '' # v)"
    using d m by (simp add: fromMatch_def)
  with capture_rest_value [OF assms] show ?thesis by simp
qed

lemma parse_line_from_written:
  assumes "is_trimmed v" and "\<forall>c\<in>set v. \<not> is_line_terminator c"
  shows "parse_line st (''# Question from: '' @ v) = st\<lparr>p_fromAgent := v\<rparr>"
  using fromMatch_written [OF assms] by (auto simp: parse_line_def)

lemma parse_line_for_written:
  "parse_line st (''## For: '' @ recipient_string r) = st\<lparr>p_forRecipient := r\<rparr>"
proof (cases r)
  case User
  have "forMatch ''## For: user'' = Some ''user''" by code_simp
  moreover have "recipient_of (toLowerCase (trim ''user'')) = User" by code_simp
  ultimately show ?thesis
    using User parse_line_for [of "''## For: user''" "''user''" st] by (simp add: recipient_string_def)
next
  case Po
  have "forMatch ''## For: po'' = Some ''po''" by code_simp
  moreover have "recipient_of (toLowerCase (trim ''po'')) = Po" by code_simp
  ultimately show ?thesis
    using Po parse_line_for [of "''## For: po''" "''po''" st] by (simp add: recipient_string_def)
next
  case Tech_lead
  have "forMatch ''## For: tech_lead'' = Some ''tech_lead''" by code_simp
  moreover have "recipient_of (toLowerCase (trim ''tech_lead'')) = Tech_lead" by code_simp
  ultimately show ?thesis
    using Tech_lead parse_line_for [of "''## For: tech_lead''" "''tech_lead''" st]
    by (simp add: recipient_string_def)
qed

lemma written_headers:
  "header_section ''## Context'' = Some Context_section"
  "header_section ''## Question'' = Some Question_section"
  "header_section ''## Options'' = Some Options_section"
  "is_content_line []"
  by code_simp+

lemma run_section:
  assumes "currentSection st \<noteq> No_section" and "\<forall>l\<in>set ls. is_content_line l"
  shows "foldl parse_line st ls = st\<lparr>sectionContent := sectionContent st @ ls\<rparr>"
  using assms by (induction ls arbitrary: st) (simp_all add: parse_line_content)


lemma concat_split_lines:
  "\<forall>x\<in>set ls. sep \<notin> set x \<Longrightarrow> concat (map (split_on sep) ls) = ls"
  by (induction ls) (simp_all add: split_on_no_sep)

lemma NL_not_in_recipient: "NL \<notin> set (recipient_string r)"
  by (cases r) (simp_all add: recipient_string_def)

lemma written_lines:
  assumes "NL \<notin> set fromA" and "\<forall>x\<in>set opts. NL \<notin> set x"
  shows "split_on NL (join_with [NL] (question_lines fromA forR ctx qu opts) @ [NL]) =
     [''# Question from: '' @ fromA, [], ''## For: '' @ recipient_string forR, []]
     @ ([''## Context'', []] @ split_on NL ctx @ [[]])
     @ ([''## Question'', []] @ split_on NL qu)
     @ (if opts \<noteq> [] then [[], ''## Options'', []] @ opts else []) @ [[]]"
proof -
  have ne: "question_lines fromA forR ctx qu opts \<noteq> []"
    by (simp add: question_lines_def)
  have "split_on NL (join_with [NL] (question_lines fromA forR ctx qu opts) @ [NL])
      = concat (map (split_on NL) (question_lines fromA forR ctx qu opts)) @ [[]]"
    by (simp only: split_on_snoc split_join_parts [OF ne])
  also have "concat (map (split_on NL) (question_lines fromA forR ctx qu opts)) =
     [''# Question from: '' @ fromA, [], ''## For: '' @ recipient_string forR, []]
     @ ([''## Context'', []] @ split_on NL ctx @ [[]])
     @ ([''## Question'', []] @ split_on NL qu)
     @ (if opts \<noteq> [] then [[], ''## Options'', []] @ opts else [])"
    using assms NL_not_in_recipient [of forR]
    by (simp add: question_lines_def split_on_no_sep concat_split_lines)
  finally show ?thesis by simp
qed

lemma parse_written:
  assumes F: "is_trimmed fromA" "\<forall>c\<in>set fromA. \<not> is_line_terminator c"
    and C: "is_trimmed ctx" "\<forall>l\<in>set (split_on NL ctx). is_content_line l"
    and Q: "is_trimmed qu" "\<forall>l\<in>set (split_on NL qu). is_content_line l"
    and O: "\<forall>x\<in>set opts. x \<noteq> [] \<and> is_trimmed x \<and> NL \<notin> set x \<and> is_content_line x"
  shows "saveSection (foldl parse_line parse_init
           (split_on NL (join_with [NL] (question_lines fromA forR ctx qu opts) @ [NL])))
     = parse_init\<lparr>p_fromAgent := fromA, p_forRecipient := forR, p_context := ctx,
                    p_question := qu, p_options := opts,
                    currentSection := (if opts \<noteq> [] then Options_section else Question_section)\<rparr>"
proof -
  from F(2) have nlF: "NL \<notin> set fromA"
    by (auto simp: is_line_terminator_def)
  from O have nlO: "\<forall>x\<in>set opts. NL \<notin> set x"
    by simp
  define s1 where "s1 = parse_init\<lparr>p_fromAgent := fromA, p_forRecipient := forR\<rparr>"
  define s2 where "s2 = s1\<lparr>currentSection := Context_section,
                            sectionContent := [] # split_on NL ctx @ [[]]\<rparr>"
  define s3 where "s3 = s1\<lparr>p_context := ctx, currentSection := Question_section,
                            sectionContent := [] # split_on NL qu\<rparr>"
  have A: "foldl parse_line parse_init
      [''# Question from: '' @ fromA, [], ''## For: '' @ recipient_string forR, []] = s1"
  proof -
    have a1: "parse_line parse_init (''# Question from: '' @ fromA) = parse_init\<lparr>p_fromAgent := fromA\<rparr>"
      by (rule parse_line_from_written [OF F])
    have a2: "parse_line (parse_init\<lparr>p_fromAgent := fromA\<rparr>) [] = parse_init\<lparr>p_fromAgent := fromA\<rparr>"
      by (simp add: parse_line_content written_headers parse_init_def)
    have a3: "parse_line (parse_init\<lparr>p_fromAgent := fromA\<rparr>) (''## For: '' @ recipient_string forR) = s1"
      unfolding s1_def by (rule parse_line_for_written)
    have a4: "parse_line s1 [] = s1"
      by (simp add: parse_line_content written_headers s1_def parse_init_def)
    show ?thesis
      unfolding foldl.simps a1 a2 a3 a4 ..
  qed
  have B: "foldl parse_line s1 ([''## Context'', []] @ split_on NL ctx @ [[]]) = s2"
  proof -
    have "parse_line s1 ''## Context'' = s1\<lparr>currentSection := Context_section\<rparr>"
      by (simp add: parse_line_header [OF written_headers(1)] saveSection_def s1_def parse_init_def)
    moreover have "foldl parse_line (s1\<lparr>currentSection := Context_section\<rparr>) ([] # split_on NL ctx @ [[]])
        = s1\<lparr>currentSection := Context_section\<rparr>
            \<lparr>sectionContent := sectionContent (s1\<lparr>currentSection := Context_section\<rparr>)
               @ ([] # split_on NL ctx @ [[]])\<rparr>"
      using C(2) by (intro run_section) (simp_all add: written_headers)
    ultimately show ?thesis
      by (simp add: s2_def s1_def parse_init_def)
  qed
  have C': "foldl parse_line s2 ([''## Question'', []] @ split_on NL qu) = s3"
  proof -
    have "parse_line s2 ''## Question'' = s1\<lparr>p_context := ctx, currentSection := Question_section\<rparr>"
      using trim_block [OF C(1)]
      by (simp add: parse_line_header [OF written_headers(2)] saveSection_def s2_def s1_def parse_init_def)
    moreover have "foldl parse_line (s1\<lparr>p_context := ctx, currentSection := Question_section\<rparr>)
          ([] # split_on NL qu)
        = s1\<lparr>p_context := ctx, currentSection := Question_section\<rparr>
            \<lparr>sectionContent := sectionContent (s1\<lparr>p_context := ctx, currentSection := Question_section\<rparr>)
               @ ([] # split_on NL qu)\<rparr>"
      using Q(2) by (intro run_section) (simp_all add: written_headers)
    ultimately show ?thesis
      by (simp add: s3_def s1_def parse_init_def)
  qed
  have D: "foldl parse_line s3 [[]] = s3\<lparr>sectionContent := [] # split_on NL qu @ [[]]\<rparr>"
    by (simp add: parse_line_content written_headers s3_def)
  show ?thesis
  proof (cases "opts = []")
    case True
    have "foldl parse_line parse_init
            (split_on NL (join_with [NL] (question_lines fromA forR ctx qu opts) @ [NL]))
        = foldl parse_line parse_init
            ([''# Question from: '' @ fromA, [], ''## For: '' @ recipient_string forR, []]
             @ ([''## Context'', []] @ split_on NL ctx @ [[]])
             @ ([''## Question'', []] @ split_on NL qu)
             @ (if opts \<noteq> [] then [[], ''## Options'', []] @ opts else []) @ [[]])"
      by (simp only: written_lines [OF nlF nlO])
    also have "\<dots> = s3\<lparr>sectionContent := [] # split_on NL qu @ [[]]\<rparr>"
      using True A B C' D by simp
    finally have "foldl parse_line parse_init
            (split_on NL (join_with [NL] (question_lines fromA forR ctx qu opts) @ [NL]))
        = s3\<lparr>sectionContent := [] # split_on NL qu @ [[]]\<rparr>" .
    then show ?thesis
      using True trim_block [OF Q(1)]
      by (simp add: saveSection_def s3_def s1_def parse_init_def)
  next
    case False
    define s5 where "s5 = s1\<lparr>p_context := ctx, p_question := qu, currentSection := Options_section\<rparr>"
    have E: "parse_line (s3\<lparr>sectionContent := [] # split_on NL qu @ [[]]\<rparr>) ''## Options'' = s5"
      using trim_block [OF Q(1)]
      by (simp add: parse_line_header [OF written_headers(3)] saveSection_def s3_def s5_def s1_def
          parse_init_def)
    have G: "foldl parse_line s5 ([] # opts @ [[]]) = s5\<lparr>sectionContent := sectionContent s5 @ ([] # opts @ [[]])\<rparr>"
      using O by (intro run_section) (simp_all add: written_headers s5_def)
    have "foldl parse_line parse_init
            (split_on NL (join_with [NL] (question_lines fromA forR ctx qu opts) @ [NL]))
        = foldl parse_line parse_init
            ([''# Question from: '' @ fromA, [], ''## For: '' @ recipient_string forR, []]
             @ ([''## Context'', []] @ split_on NL ctx @ [[]])
             @ ([''## Question'', []] @ split_on NL qu)
             @ (if opts \<noteq> [] then [[], ''## Options'', []] @ opts else []) @ [[]])"
      by (simp only: written_lines [OF nlF nlO])
    also have "\<dots> = foldl parse_line s5 ([] # opts @ [[]])"
      using False A B C' D E by simp
    also have "\<dots> = s5\<lparr>sectionContent := [] # opts @ [[]]\<rparr>"
      unfolding G by (simp add: s5_def s1_def parse_init_def)
    finally have "foldl parse_line parse_init
            (split_on NL (join_with [NL] (question_lines fromA forR ctx qu opts) @ [NL]))
        = s5\<lparr>sectionContent := [] # opts @ [[]]\<rparr>" .
    moreover have "trim (join_with [NL] ([] # opts @ [[]])) = join_with [NL] opts"
      using False O by (intro trim_options_block) simp_all
    moreover have "filter (\<lambda>l. trim l \<noteq> []) (split_on NL (join_with [NL] opts)) = opts"
      using False O by (intro options_lines) simp_all
    ultimately show ?thesis
      using False by (simp add: saveSection_def s5_def s1_def parse_init_def)
  qed
qed


lemma written_file_content:
  "readFileSync (snd (writeQuestionFile now_ms fs fromA forR ctx qu opts))
       (fst (writeQuestionFile now_ms fs fromA forR ctx qu opts))
     = Some (join_with [NL] (question_lines fromA forR ctx qu opts) @ [NL])"
proof -
  let ?path = "generateQuestionFileName fs"
  have "?path @ ''.tmp.'' @ string_of_nat now_ms \<noteq> ?path"
    by simp
  then show ?thesis
    by (simp add: writeQuestionFile_def Let_def readFileSync_def map_of_rename_write)
qed

text \<open>
  Claim C5, as amended. Writing a question with \<open>writeQuestionFile\<close> and parsing the
  written file with \<open>parseQuestionFile\<close> recovers the same \<open>fromAgent\<close>, \<open>forRecipient\<close>,
  \<open>context\<close>, \<open>question\<close> and \<open>options\<close>, for every recipient, when: \<open>fromAgent\<close>,
  \<open>context\<close>, \<open>question\<close> and each option have no leading or trailing white space;
  \<open>fromAgent\<close> contains no line terminator; no option is empty or contains a newline;
  and no line of \<open>context\<close>, of \<open>question\<close> or of the options is matched by one of the
  parser's three header patterns.
\<close>

theorem C5_round_trip:
  assumes "is_trimmed fromA" and "\<forall>c\<in>set fromA. \<not> is_line_terminator c"
    and "is_trimmed ctx" and "\<forall>l\<in>set (split_on NL ctx). is_content_line l"
    and "is_trimmed qu" and "\<forall>l\<in>set (split_on NL qu). is_content_line l"
    and "\<forall>x\<in>set opts. x \<noteq> [] \<and> is_trimmed x \<and> NL \<notin> set x \<and> is_content_line x"
  shows "\<exists>q. parseQuestionFile (snd (writeQuestionFile now_ms fs fromA forR ctx qu opts))
                (fst (writeQuestionFile now_ms fs fromA forR ctx qu opts)) = Inr q
           \<and> fromAgent q = fromA \<and> forRecipient q = forR \<and> q_context q = ctx
           \<and> question q = qu \<and> options q = opts"
proof -
  let ?path = "fst (writeQuestionFile now_ms fs fromA forR ctx qu opts)"
  let ?c = "join_with [NL] (question_lines fromA forR ctx qu opts) @ [NL]"
  have "parseQuestionFile (snd (writeQuestionFile now_ms fs fromA forR ctx qu opts)) ?path
      = Inr (parse_content ?path ?c)"
    by (simp add: parseQuestionFile_def written_file_content)
  moreover have "fromAgent (parse_content ?path ?c) = fromA"
    and "forRecipient (parse_content ?path ?c) = forR"
    and "q_context (parse_content ?path ?c) = ctx"
    and "question (parse_content ?path ?c) = qu"
    and "options (parse_content ?path ?c) = opts"
    using parse_written [OF assms, of forR]
    by (simp_all add: parse_content_def Let_def)
  ultimately show ?thesis
    by blast
qed

theorem C5_round_trip_witness:
  "\<exists>q. parseQuestionFile
          (snd (writeQuestionFile 17 example_questions ''dev-frontend'' Tech_lead ''Working on login''
                  (''Which database?'' @ [NL] @ ''Postgres or SQLite?'') [''A) Postgres'', ''B) SQLite'']))
          (fst (writeQuestionFile 17 example_questions ''dev-frontend'' Tech_lead ''Working on login''
                  (''Which database?'' @ [NL] @ ''Postgres or SQLite?'') [''A) Postgres'', ''B) SQLite'']))
        = Inr q
      \<and> fromAgent q = ''dev-frontend'' \<and> forRecipient q = Tech_lead
      \<and> q_context q = ''Working on login''
      \<and> question q = ''Which database?'' @ [NL] @ ''Postgres or SQLite?''
      \<and> options q = [''A) Postgres'', ''B) SQLite'']"
proof -
  have f1: "is_trimmed ''dev-frontend''" by code_simp
  have f2: "\<forall>c\<in>set ''dev-frontend''. \<not> is_line_terminator c" by code_simp
  have c1: "is_trimmed ''Working on login''" by code_simp
  have c2: "\<forall>l\<in>set (split_on NL ''Working on login''). is_content_line l" by code_simp
  have q1: "is_trimmed (''Which database?'' @ [NL] @ ''Postgres or SQLite?'')" by code_simp
  have q2: "\<forall>l\<in>set (split_on NL (''Which database?'' @ [NL] @ ''Postgres or SQLite?'')). is_content_line l"
    by code_simp
  have o1: "\<forall>x\<in>set [''A) Postgres'', ''B) SQLite'']. x \<noteq> [] \<and> is_trimmed x \<and> NL \<notin> set x \<and> is_content_line x"
    by code_simp
  show ?thesis
    by (rule C5_round_trip [OF f1 f2 c1 c2 q1 q2 o1])
qed

theorem C5_counterexample:
  "map_sum id q_context
     (parseQuestionFile (snd (writeQuestionFile 17 [] ''dev'' Po '' ctx'' ''what?'' []))
        (fst (writeQuestionFile 17 [] ''dev'' Po '' ctx'' ''what?'' []))) = Inr ''ctx''
   \<and> map_sum id q_context
     (parseQuestionFile (snd (writeQuestionFile 17 [] ''dev'' Po ''## Question'' ''what?'' []))
        (fst (writeQuestionFile 17 [] ''dev'' Po ''## Question'' ''what?'' []))) = Inr []
   \<and> map_sum id options
     (parseQuestionFile (snd (writeQuestionFile 17 [] ''dev'' Po ''c'' ''what?'' [''a'', [], ''b'']))
        (fst (writeQuestionFile 17 [] ''dev'' Po ''c'' ''what?'' [''a'', [], ''b'']))) = Inr [''a'', ''b'']
   \<and> map_sum id fromAgent
     (parseQuestionFile (snd (writeQuestionFile 17 [] [CHR ''a'', NL, CHR ''b''] Po ''c'' ''what?'' []))
        (fst (writeQuestionFile 17 [] [CHR ''a'', NL, CHR ''b''] Po ''c'' ''what?'' []))) = Inr ''a''"
  by code_simp

section \<open>Running the dev sessions\<close>

lemma runDevAgent_spawn:
  "runDevAgent w k config =
     (case spawnDevAgent w k config of Inl e \<Rightarrow> Some (Inl e) | Inr h \<Rightarrow> handle_result w h)"
  by (simp add: runDevAgent_def spawnDevAgent_def handle_result_def Let_def
      split: sum.splits option.splits)

lemma spawnDevAgent_handle:
  "spawnDevAgent w k config = Inr h \<Longrightarrow>
     h = \<lparr>h_area = c_area config, h_tickets = c_tickets config, h_process = k\<rparr>"
  by (auto simp: spawnDevAgent_def Let_def split: if_splits sum.splits option.splits)

lemma handle_result_closed:
  assumes "w_event w (h_process h) = Some (Close code sig kf out err)"
  shows "\<exists>r. handle_result w h = Some (Inr r) \<and> r_area r = h_area h
            \<and> (r_status r = Blocked \<or> r_questionFile r = None)"
  using assms toDevAgentResult_total [of "w_fs_done w (h_process h)" "h_area h" "onClose code sig kf out err"]
  by (auto simp: handle_result_def agent_result_def)

lemma those_all_Some:
  "\<forall>i<length slots. \<exists>v. slots ! i = Some v \<Longrightarrow> those slots = Some (map the slots)"
proof (induction slots)
  case Nil
  show ?case by simp
next
  case (Cons s slots)
  from Cons.prems have "\<exists>v. (s # slots) ! 0 = Some v" by blast
  then obtain v where s: "s = Some v" by auto
  from Cons.prems have "\<forall>i<length slots. \<exists>v. slots ! i = Some v" by fastforce
  with Cons.IH s show ?case by simp
qed

lemma promise_all_fulfilled:
  assumes "\<forall>i\<in>set order. i < n"
    and "\<forall>i<n. \<exists>v. settle i = Some (Inr v)"
    and "length slots = n"
    and "\<forall>i<n. i \<in> set order \<or> settle i = Some (Inr (the (slots ! i))) \<and> slots ! i \<noteq> None"
  shows "\<exists>vs. promise_all settle order slots = Some (Inr vs) \<and> length vs = n
           \<and> (\<forall>i<n. settle i = Some (Inr (vs ! i)))"
  using assms
proof (induction order arbitrary: slots)
  case Nil
  then have "\<forall>i<length slots. \<exists>v. slots ! i = Some v" by auto
  then have "those slots = Some (map the slots)" by (rule those_all_Some)
  with Nil show ?case by auto
next
  case (Cons j order)
  from Cons.prems have j: "j < n" by simp
  with Cons.prems obtain v where v: "settle j = Some (Inr v)" by blast
  let ?slots = "slots[j := Some v]"
  have "\<exists>vs. promise_all settle order ?slots = Some (Inr vs) \<and> length vs = n
           \<and> (\<forall>i<n. settle i = Some (Inr (vs ! i)))"
  proof (rule Cons.IH)
    show "\<forall>i\<in>set order. i < n" using Cons.prems by simp
    show "\<forall>i<n. \<exists>v. settle i = Some (Inr v)" using Cons.prems by simp
    show "length ?slots = n" using Cons.prems by simp
    show "\<forall>i<n. i \<in> set order \<or> settle i = Some (Inr (the (?slots ! i))) \<and> ?slots ! i \<noteq> None"
    proof (intro allI impI)
      fix i assume i: "i < n"
      show "i \<in> set order \<or> settle i = Some (Inr (the (?slots ! i))) \<and> ?slots ! i \<noteq> None"
      proof (cases "i = j")
        case True
        with v j Cons.prems(3) show ?thesis by simp
      next
        case False
        with i Cons.prems(4) show ?thesis by auto
      qed
    qed
  qed
  with v show ?case by simp
qed


lemma spawn_all_ok:
  assumes "\<forall>k<length ss. \<exists>h. spawnDevAgent w (k0 + k) (session_config opts (ss ! k)) = Inr h"
  shows "\<exists>hs. spawn_all w opts k0 ss = Inr hs \<and> length hs = length ss
           \<and> (\<forall>k<length ss. spawnDevAgent w (k0 + k) (session_config opts (ss ! k)) = Inr (hs ! k))"
  using assms
proof (induction ss arbitrary: k0)
  case Nil
  show ?case by simp
next
  case (Cons s ss)
  from Cons.prems have "\<exists>h. spawnDevAgent w (k0 + 0) (session_config opts ((s # ss) ! 0)) = Inr h"
    by blast
  then obtain h where h: "spawnDevAgent w k0 (session_config opts s) = Inr h"
    by auto
  have "\<forall>k<length ss. \<exists>h. spawnDevAgent w (Suc k0 + k) (session_config opts (ss ! k)) = Inr h"
  proof (intro allI impI)
    fix k assume "k < length ss"
    then have "Suc k < length (s # ss)" by simp
    with Cons.prems have "\<exists>h. spawnDevAgent w (k0 + Suc k) (session_config opts ((s # ss) ! Suc k)) = Inr h"
      by blast
    then show "\<exists>h. spawnDevAgent w (Suc k0 + k) (session_config opts (ss ! k)) = Inr h"
      by simp
  qed
  from Cons.IH [OF this] obtain hs where hs: "spawn_all w opts (Suc k0) ss = Inr hs"
    "length hs = length ss"
    "\<forall>k<length ss. spawnDevAgent w (Suc k0 + k) (session_config opts (ss ! k)) = Inr (hs ! k)"
    by blast
  have "\<forall>k<length (s # ss). spawnDevAgent w (k0 + k) (session_config opts ((s # ss) ! k)) = Inr ((h # hs) ! k)"
  proof (intro allI impI)
    fix k assume k: "k < length (s # ss)"
    show "spawnDevAgent w (k0 + k) (session_config opts ((s # ss) ! k)) = Inr ((h # hs) ! k)"
    proof (cases k)
      case 0
      with h show ?thesis by simp
    next
      case (Suc m)
      with k hs(3) show ?thesis by simp
    qed
  qed
  with h hs(1,2) show ?case by simp
qed

lemma run_sequential_ok:
  assumes "\<forall>k<length ss. \<exists>r. runDevAgent w (k0 + k) (session_config opts (ss ! k)) = Some (Inr r)"
  shows "\<exists>rs. run_sequential w opts k0 ss acc = Some (Inr (acc @ rs)) \<and> length rs = length ss
           \<and> (\<forall>k<length ss. runDevAgent w (k0 + k) (session_config opts (ss ! k)) = Some (Inr (rs ! k)))"
  using assms
proof (induction ss arbitrary: k0 acc)
  case Nil
  show ?case by simp
next
  case (Cons s ss)
  from Cons.prems have "\<exists>r. runDevAgent w (k0 + 0) (session_config opts ((s # ss) ! 0)) = Some (Inr r)"
    by blast
  then obtain r where r: "runDevAgent w k0 (session_config opts s) = Some (Inr r)"
    by auto
  have "\<forall>k<length ss. \<exists>r. runDevAgent w (Suc k0 + k) (session_config opts (ss ! k)) = Some (Inr r)"
  proof (intro allI impI)
    fix k assume "k < length ss"
    then have "Suc k < length (s # ss)" by simp
    with Cons.prems have "\<exists>r. runDevAgent w (k0 + Suc k) (session_config opts ((s # ss) ! Suc k)) = Some (Inr r)"
      by blast
    then show "\<exists>r. runDevAgent w (Suc k0 + k) (session_config opts (ss ! k)) = Some (Inr r)"
      by simp
  qed
  from Cons.IH [OF this, of "acc @ [r]"] obtain rs where rs:
    "run_sequential w opts (Suc k0) ss (acc @ [r]) = Some (Inr ((acc @ [r]) @ rs))"
    "length rs = length ss"
    "\<forall>k<length ss. runDevAgent w (Suc k0 + k) (session_config opts (ss ! k)) = Some (Inr (rs ! k))"
    by blast
  have "\<forall>k<length (s # ss). runDevAgent w (k0 + k) (session_config opts ((s # ss) ! k)) = Some (Inr ((r # rs) ! k))"
  proof (intro allI impI)
    fix k assume k: "k < length (s # ss)"
    show "runDevAgent w (k0 + k) (session_config opts ((s # ss) ! k)) = Some (Inr ((r # rs) ! k))"
    proof (cases k)
      case 0
      with r show ?thesis by simp
    next
      case (Suc m)
      with k rs(3) show ?thesis by simp
    qed
  qed
  with r rs(1,2) show ?case by simp
qed

lemma runDevAgent_ok:
  assumes "spawnDevAgent w k config = Inr h"
    and "w_event w k = Some (Close code sig kf out err)"
  shows "\<exists>r. runDevAgent w k config = Some (Inr r) \<and> handle_result w h = Some (Inr r)
           \<and> r_area r = c_area config \<and> (r_status r = Blocked \<or> r_questionFile r = None)"
proof -
  from assms(1) have h: "h = \<lparr>h_area = c_area config, h_tickets = c_tickets config, h_process = k\<rparr>"
    by (rule spawnDevAgent_handle)
  with assms(2) have "w_event w (h_process h) = Some (Close code sig kf out err)"
    by simp
  from handle_result_closed [OF this] h assms(1) show ?thesis
    by (auto simp: runDevAgent_spawn)
qed

lemma runDevSessions_results:
  assumes valid: "\<forall>k<length sessions. \<exists>h. spawnDevAgent w k (session_config opts (sessions ! k)) = Inr h"
    and ends: "\<forall>k<length sessions. \<exists>code sig kf out err. w_event w k = Some (Close code sig kf out err)"
    and order: "set (w_order w) = {..<length sessions}"
  shows "\<exists>rs. runDevSessions w sessions opts = Some (Inr rs) \<and> length rs = length sessions
           \<and> (\<forall>k<length sessions.
                  runDevAgent w k (session_config opts (sessions ! k)) = Some (Inr (rs ! k)))"
proof (cases "sessions = []")
  case True
  then show ?thesis by (simp add: runDevSessions_def)
next
  case False
  let ?n = "length sessions"
  have each: "\<exists>r. runDevAgent w k (session_config opts (sessions ! k)) = Some (Inr r)" if "k < ?n" for k
    using that valid ends runDevAgent_ok [of w k "session_config opts (sessions ! k)"] by blast
  show ?thesis
  proof (cases "default_to True (o_parallel opts)")
    case seq: False
    from each have "\<forall>k<?n. \<exists>r. runDevAgent w (0 + k) (session_config opts (sessions ! k)) = Some (Inr r)"
      by simp
    from run_sequential_ok [OF this, of "[]"] False seq show ?thesis
      by (simp add: runDevSessions_def)
  next
    case par: True
    from valid have "\<forall>k<?n. \<exists>h. spawnDevAgent w (0 + k) (session_config opts (sessions ! k)) = Inr h"
      by simp
    from spawn_all_ok [OF this] obtain hs where hs: "spawn_all w opts 0 sessions = Inr hs"
      "length hs = ?n"
      "\<forall>k<?n. spawnDevAgent w k (session_config opts (sessions ! k)) = Inr (hs ! k)"
      by auto
    let ?settle = "\<lambda>i. if i < length hs then handle_result w (hs ! i) else None"
    have run: "runDevAgent w k (session_config opts (sessions ! k)) = ?settle k" if "k < ?n" for k
      using that hs by (simp add: runDevAgent_spawn)
    have "\<exists>vs. promise_all ?settle (w_order w) (replicate ?n None) = Some (Inr vs) \<and> length vs = ?n
            \<and> (\<forall>i<?n. ?settle i = Some (Inr (vs ! i)))"
    proof (rule promise_all_fulfilled)
      show "\<forall>i\<in>set (w_order w). i < ?n" using order by simp
      show "\<forall>i<?n. \<exists>v. ?settle i = Some (Inr v)" using each run by metis
      show "length (replicate ?n None) = ?n" by simp
      show "\<forall>i<?n. i \<in> set (w_order w) \<or>
              ?settle i = Some (Inr (the (replicate ?n None ! i))) \<and> replicate ?n None ! i \<noteq> None"
        using order by simp
    qed
    then obtain vs where vs: "promise_all ?settle (w_order w) (replicate ?n None) = Some (Inr vs)"
      "length vs = ?n" "\<forall>i<?n. ?settle i = Some (Inr (vs ! i))"
      by blast
    from vs(3) run have "\<forall>k<?n. runDevAgent w k (session_config opts (sessions ! k)) = Some (Inr (vs ! k))"
      by simp
    with vs(1,2) hs(1,2) False par show ?thesis
      by (simp add: runDevSessions_def)
  qed
qed

lemma runDevAgent_order: "runDevAgent (w\<lparr>w_order := order'\<rparr>) k config = runDevAgent w k config"
  by (simp add: runDevAgent_def Let_def split: sum.splits option.splits)

lemma spawnDevAgent_order: "spawnDevAgent (w\<lparr>w_order := order'\<rparr>) k config = spawnDevAgent w k config"
  by (simp add: spawnDevAgent_def)

lemma session_config_parallel: "session_config (opts\<lparr>o_parallel := p\<rparr>) s = session_config opts s"
  by (simp add: session_config_def)

lemma spawn_all_parallel: "spawn_all w (opts\<lparr>o_parallel := p\<rparr>) k ss = spawn_all w opts k ss"
  by (induction ss arbitrary: k) (simp_all add: session_config_parallel split: sum.splits)

lemma trim_empty_iff: "(trim s = []) = (\<forall>c\<in>set s. is_space c)"
  using is_blank_iff [of s] by (simp add: is_blank_def)

lemma dev_name_not_blank: "trim (''dev-'' @ a) \<noteq> []"
proof -
  have "\<not> is_space (CHR ''d'')" by (simp add: is_space_def)
  then show ?thesis by (auto simp: trim_empty_iff)
qed

lemma spawnDevAgent_succeeds:
  "(\<exists>h. spawnDevAgent w k config = Inr h) =
     (trim (c_area config) \<noteq> [] \<and> c_tickets config \<noteq> []
      \<and> trim (default_to DEV_PROMPT_FILE (c_promptFile config)) \<noteq> []
      \<and> existsSync (w_fs_spawn w k) (default_to DEV_PROMPT_FILE (c_promptFile config))
      \<and> existsSync (w_fs_spawn w k) (default_to PRD_FILE (c_prdFile config))
      \<and> existsSync (w_fs_spawn w k) (default_to ARCHITECTURE_FILE (c_architectureFile config)))"
proof -
  have t: "trim [] = []" by (simp add: trim_def)
  show ?thesis
    using t dev_name_not_blank [of "c_area config"]
    by (auto simp: spawnDevAgent_def Let_def readPRDFile_def readArchitectureFile_def
        validateConfig_def existsSync_def readFileSync_def split: option.splits)
qed

text \<open>
  Claim C2, as amended. When every session has an area that is not blank and at least
  one ticket, the prompt, PRD and architecture files exist, and every spawned process
  is created and ends, \<open>runDevSessions\<close> returns one result per input session, in the
  order of the input: the result at position \<open>k\<close> is that of the session at position
  \<open>k\<close> and carries its area. This holds with \<open>parallel\<close> true, omitted (which is the same
  as true) or false, and with the processes finishing in any order: another order gives
  the same list. A result carries a question file only if its status is blocked.
\<close>

theorem C2_run_dev_sessions:
  assumes sessions_ok: "\<forall>s\<in>set sessions. trim (in_area s) \<noteq> [] \<and> in_tickets s \<noteq> []"
    and files_ok: "\<forall>k<length sessions.
        trim (default_to DEV_PROMPT_FILE (o_promptFile opts)) \<noteq> []
        \<and> existsSync (w_fs_spawn w k) (default_to DEV_PROMPT_FILE (o_promptFile opts))
        \<and> existsSync (w_fs_spawn w k) (default_to PRD_FILE (o_prdFile opts))
        \<and> existsSync (w_fs_spawn w k) (default_to ARCHITECTURE_FILE (o_architectureFile opts))"
    and ends: "\<forall>k<length sessions. \<exists>code sig kf out err. w_event w k = Some (Close code sig kf out err)"
    and order: "set (w_order w) = {..<length sessions}"
    and order': "set order' = {..<length sessions}"
  shows "\<exists>rs. runDevSessions w sessions opts = Some (Inr rs)
           \<and> length rs = length sessions
           \<and> map r_area rs = map in_area sessions
           \<and> (\<forall>k<length sessions.
                  runDevAgent w k (session_config opts (sessions ! k)) = Some (Inr (rs ! k)))
           \<and> (\<forall>r\<in>set rs. r_questionFile r \<noteq> None \<longrightarrow> r_status r = Blocked)
           \<and> runDevSessions (w\<lparr>w_order := order'\<rparr>) sessions opts = Some (Inr rs)
           \<and> runDevSessions w sessions (opts\<lparr>o_parallel := None\<rparr>)
               = runDevSessions w sessions (opts\<lparr>o_parallel := Some True\<rparr>)"
proof -
  let ?n = "length sessions"
  have valid: "\<forall>k<?n. \<exists>h. spawnDevAgent w k (session_config opts (sessions ! k)) = Inr h"
  proof (intro allI impI)
    fix k assume k: "k < ?n"
    then have "sessions ! k \<in> set sessions" by simp
    with sessions_ok have "trim (in_area (sessions ! k)) \<noteq> [] \<and> in_tickets (sessions ! k) \<noteq> []"
      by blast
    with files_ok k show "\<exists>h. spawnDevAgent w k (session_config opts (sessions ! k)) = Inr h"
      by (simp add: spawnDevAgent_succeeds session_config_def)
  qed
  from runDevSessions_results [OF valid ends order] obtain rs where rs:
    "runDevSessions w sessions opts = Some (Inr rs)" "length rs = ?n"
    "\<forall>k<?n. runDevAgent w k (session_config opts (sessions ! k)) = Some (Inr (rs ! k))"
    by blast
  have props: "r_area (rs ! k) = in_area (sessions ! k)
      \<and> (r_status (rs ! k) = Blocked \<or> r_questionFile (rs ! k) = None)" if "k < ?n" for k
  proof -
    from valid that obtain h where "spawnDevAgent w k (session_config opts (sessions ! k)) = Inr h"
      by blast
    moreover from ends that obtain code sig kf out err
      where "w_event w k = Some (Close code sig kf out err)"
      by blast
    ultimately obtain r where "runDevAgent w k (session_config opts (sessions ! k)) = Some (Inr r)"
      "r_area r = c_area (session_config opts (sessions ! k))"
      "r_status r = Blocked \<or> r_questionFile r = None"
      using runDevAgent_ok by blast
    with rs(3) that show ?thesis
      by (simp add: session_config_def)
  qed
  have areas: "map r_area rs = map in_area sessions"
    using rs(2) props by (intro nth_equalityI) simp_all
  have blocked: "\<forall>r\<in>set rs. r_questionFile r \<noteq> None \<longrightarrow> r_status r = Blocked"
  proof (intro ballI impI)
    fix r assume "r \<in> set rs" and q: "r_questionFile r \<noteq> None"
    then obtain k where "k < ?n" "r = rs ! k"
      using rs(2) by (auto simp: in_set_conv_nth)
    with props [of k] q show "r_status r = Blocked"
      by auto
  qed
  have "\<exists>rs'. runDevSessions (w\<lparr>w_order := order'\<rparr>) sessions opts = Some (Inr rs')
      \<and> length rs' = ?n
      \<and> (\<forall>k<?n. runDevAgent (w\<lparr>w_order := order'\<rparr>) k (session_config opts (sessions ! k))
             = Some (Inr (rs' ! k)))"
    using valid ends order' by (intro runDevSessions_results) (simp_all add: spawnDevAgent_order)
  then obtain rs' where rs': "runDevSessions (w\<lparr>w_order := order'\<rparr>) sessions opts = Some (Inr rs')"
    "length rs' = ?n"
    "\<forall>k<?n. runDevAgent w k (session_config opts (sessions ! k)) = Some (Inr (rs' ! k))"
    by (auto simp: runDevAgent_order)
  have "rs' = rs"
    using rs(2,3) rs'(2,3) by (intro nth_equalityI) auto
  with rs' have same: "runDevSessions (w\<lparr>w_order := order'\<rparr>) sessions opts = Some (Inr rs)"
    by simp
  have dflt: "runDevSessions w sessions (opts\<lparr>o_parallel := None\<rparr>)
      = runDevSessions w sessions (opts\<lparr>o_parallel := Some True\<rparr>)"
    by (simp add: runDevSessions_def default_to_def spawn_all_parallel split: sum.splits)
  from rs(1,2,3) areas blocked same dflt show ?thesis
    by blast
qed

theorem C2_run_dev_sessions_witness:
  "\<exists>rs. runDevSessions example_world example_sessions default_options = Some (Inr rs)
      \<and> length rs = 3
      \<and> map r_area rs = [''frontend'', ''backend'', ''api'']
      \<and> map r_status rs = [Success, Blocked, Error]
      \<and> map r_questionFile rs = [None, Some ''.orchestrator/questions/q-001.md'', None]
      \<and> runDevSessions (example_world\<lparr>w_order := [0, 1, 2]\<rparr>) example_sessions default_options
          = Some (Inr rs)"
proof -
  have len: "length example_sessions = 3"
    by (simp add: example_sessions_def)
  have sessions_ok: "\<forall>s\<in>set example_sessions. trim (in_area s) \<noteq> [] \<and> in_tickets s \<noteq> []"
    by code_simp
  have f: "trim (default_to DEV_PROMPT_FILE (o_promptFile default_options)) \<noteq> []
      \<and> existsSync example_project (default_to DEV_PROMPT_FILE (o_promptFile default_options))
      \<and> existsSync example_project (default_to PRD_FILE (o_prdFile default_options))
      \<and> existsSync example_project (default_to ARCHITECTURE_FILE (o_architectureFile default_options))"
    by code_simp
  have files_ok: "\<forall>k<length example_sessions.
      trim (default_to DEV_PROMPT_FILE (o_promptFile default_options)) \<noteq> []
      \<and> existsSync (w_fs_spawn example_world k) (default_to DEV_PROMPT_FILE (o_promptFile default_options))
      \<and> existsSync (w_fs_spawn example_world k) (default_to PRD_FILE (o_prdFile default_options))
      \<and> existsSync (w_fs_spawn example_world k)
            (default_to ARCHITECTURE_FILE (o_architectureFile default_options))"
    using f by (simp add: example_world_def)
  have ends: "\<forall>k<length example_sessions.
      \<exists>code sig kf out err. w_event example_world k = Some (Close code sig kf out err)"
    by (auto simp: example_world_def)
  have order: "set (w_order example_world) = {..<length example_sessions}"
    unfolding len by (auto simp: example_world_def)
  have order': "set [0, 1, 2 :: nat] = {..<length example_sessions}"
    unfolding len by auto
  have st: "map_option (map_sum id (map r_status))
        (runDevSessions example_world example_sessions default_options)
      = Some (Inr [Success, Blocked, Error])"
    by code_simp
  have qf: "map_option (map_sum id (map r_questionFile))
        (runDevSessions example_world example_sessions default_options)
      = Some (Inr [None, Some ''.orchestrator/questions/q-001.md'', None])"
    by code_simp
  from C2_run_dev_sessions [OF sessions_ok files_ok ends order order'] st qf len
  show ?thesis
    by (auto simp: example_sessions_def)
qed

theorem C2_counterexample:
  "runDevSessions example_world [\<lparr>in_area = ''frontend'', in_tickets = []\<rparr>] default_options
     = Some (Inl DevAgentError)
   \<and> runDevSessions example_world [\<lparr>in_area = ''frontend'', in_tickets = []\<rparr>]
       (default_options\<lparr>o_parallel := Some False\<rparr>)
     = Some (Inl DevAgentError)"
  by code_simp

section \<open>The next question file name\<close>

text \<open>
  Question numbers are doubles. Beyond \<open>2^53\<close> they are rounded: with the file
  \<open>q-9007199254740993.md\<close> in the directory, the number read is \<open>9007199254740992\<close>, adding
  one to it gives the same double, and the next name is \<open>q-9007199254740992.md\<close>.
\<close>

lemma bit_length_numeral:
  "bit_length 0 = 0"
  "bit_length (Suc 0) = 1"
  "bit_length (numeral (Num.Bit0 n)) = Suc (bit_length (numeral n))"
  "bit_length (numeral (Num.Bit1 n)) = Suc (bit_length (numeral n))"
proof -
  show "bit_length 0 = 0" by (simp add: bit_length.simps)
  show "bit_length (Suc 0) = 1" by (simp add: bit_length.simps)
  have "numeral (Num.Bit0 n) div (2::nat) = numeral n" by simp
  then show "bit_length (numeral (Num.Bit0 n)) = Suc (bit_length (numeral n))"
    by (subst bit_length.simps) simp
  have "numeral (Num.Bit1 n) div (2::nat) = numeral n" by simp
  then show "bit_length (numeral (Num.Bit1 n)) = Suc (bit_length (numeral n))"
    by (subst bit_length.simps) simp
qed

lemma digit_chars:
  "digit_char 0 = CHR ''0''" "digit_char (Suc 0) = CHR ''1''" "digit_char 2 = CHR ''2''"
  "digit_char 3 = CHR ''3''" "digit_char 4 = CHR ''4''" "digit_char 5 = CHR ''5''"
  "digit_char 6 = CHR ''6''" "digit_char 7 = CHR ''7''" "digit_char 8 = CHR ''8''"
  "digit_char 9 = CHR ''9''"
  by code_simp+

lemma to_double_tie: "to_double 9007199254740993 = Some 9007199254740992"
  by (simp add: to_double_def bit_length_numeral Let_def)

lemma string_of_safe_limit: "string_of_nat 9007199254740992 = ''9007199254740992''"
  by (simp add: string_of_nat.simps digit_chars)

lemma shortest_digits_safe_limit: "shortest_digits 9007199254740992 = (9007199254740992, 16)"
  by (simp add: shortest_digits_def string_of_safe_limit digits_at_def to_double_def bit_length_numeral Let_def
      List.map_filter_simps upt_rec [of _ "Suc _"])

lemma toString_safe_limit: "Number_toString (Some 9007199254740992) = ''9007199254740992''"
  by (simp add: Number_toString_def shortest_digits_safe_limit string_of_safe_limit)

lemma generated_name_rounds:
  "generateQuestionFileName
     [(''.orchestrator/questions/q-9007199254740993.md'', \<lparr>content = [], mtimeMs = 1\<rparr>)]
   = ''.orchestrator/questions/q-9007199254740992.md''"
proof -
  have r: "readdirSync [(''.orchestrator/questions/q-9007199254740993.md'', \<lparr>content = [], mtimeMs = 1\<rparr>)]
      QUESTIONS_DIR = [''q-9007199254740993.md'']"
    by code_simp
  have q1: "startsWith ''q-9007199254740993.md'' ''q-'' \<and> endsWith ''q-9007199254740993.md'' ''.md''
      \<and> 5 < length ''q-9007199254740993.md''
      \<and> take (length ''q-9007199254740993.md'' - 5) (drop 2 ''q-9007199254740993.md'') = ''9007199254740993''
      \<and> list_all is_digit ''9007199254740993''"
    by code_simp
  have p: "parseInt ''9007199254740993'' = Some 9007199254740992"
    by (simp add: parseInt_def decimal_value_def to_double_tie)
  have q: "question_number ''q-9007199254740993.md'' = Some (Some 9007199254740992)"
    unfolding question_number_def Let_def using q1 p by simp
  have n: "plus_one (Some 9007199254740992) = Some 9007199254740992"
    by (simp add: plus_one_def to_double_tie)
  have j: "path_join QUESTIONS_DIR ''q-9007199254740992.md'' = ''.orchestrator/questions/q-9007199254740992.md''"
    by code_simp
  have m: "List.map_filter question_number [''q-9007199254740993.md''] = [Some 9007199254740992]"
    by (simp add: List.map_filter_simps q)
  show ?thesis
    unfolding generateQuestionFileName_def Let_def r m
    using j by (simp add: n toString_safe_limit Math_max_def padStart_def)
qed

end
